theory Spec2Isabelle
  imports Complex_Main "HOL-Library.Word" "HOL-Library.Monad_Syntax" "HOL-Library.Log_Nat"
begin

section \<open>The OpenGL ES 2 renderer of SDL: data model\<close>

text \<open>
  A shallow embedding of \<^verbatim>\<open>src/render/opengles2/SDL_render_gles2.c\<close>.
  Heap objects (shader and program cache entries) live in two typed stores, maps from
  addresses to records; a C pointer is an \<open>addr option\<close>, \<open>None\<close> being \<open>NULL\<close>.
  Every function that follows pointers returns an \<open>option\<close>: the value \<open>None\<close> says
  that the C function does not return normally, because it dereferences a \<open>NULL\<close> or
  freed pointer, or because one of its list scans never ends.
  The OpenGL driver and the allocator are the environment: what they answer during one
  call is an argument of the model of that call, and the calls issued are appended to
  the trace \<open>gl_calls\<close>.
\<close>

type_synonym addr = nat
type_synonym GLenum = "32 word"
type_synonym GLuint = "32 word"

text \<open>
  The declarations of \<^verbatim>\<open>SDL_shaders_gles2.h\<close> are not among the sources. A shader
  instance is a static descriptor compared by address (\<open>inst_ptr\<close>); a shader is the
  array of its candidate instances, \<open>instance_count\<close> being its length; the table
  \<^verbatim>\<open>GLES2_GetShader\<close> is a parameter of the model.
\<close>

datatype GLES2_ShaderType =
    GLES2_SHADER_VERTEX_DEFAULT
  | GLES2_SHADER_FRAGMENT_SOLID_SRC
  | GLES2_SHADER_FRAGMENT_TEXTURE_SRC

record GLES2_ShaderInstance =
  inst_ptr :: nat
  inst_type :: GLenum
  inst_format :: GLenum

record GLES2_Shader =
  instances :: "GLES2_ShaderInstance list"

type_synonym get_shader = "GLES2_ShaderType \<Rightarrow> int \<Rightarrow> GLES2_Shader option"

datatype GLES2_ImageSource = GLES2_IMAGESOURCE_SOLID | GLES2_IMAGESOURCE_TEXTURE

record GLES2_ShaderCacheEntry =
  sh_id :: GLuint
  sh_type :: GLES2_ShaderType
  sh_instance :: nat
  references :: int
  sh_prev :: "addr option"
  sh_next :: "addr option"

record GLES2_ProgramCacheEntry =
  pr_id :: GLuint
  blend_mode :: int
  vertex_shader :: addr
  fragment_shader :: addr
  uniform_locations :: "GLuint list"
  pr_prev :: "addr option"
  pr_next :: "addr option"

text \<open>
  A \<^verbatim>\<open>GLfloat\<close> is taken to be an IEEE 754 single-precision number, with
  arithmetic rounded to nearest, ties to even: a finite value (a real number, the sign
  of zero dropped), an infinity, or not a number.
\<close>

datatype GLfloat = Finite real | PlusInfinity | MinusInfinity | NaN

datatype gl_cap = GL_BLEND

datatype gl_factor = GL_SRC_ALPHA | GL_ONE_MINUS_SRC_ALPHA | GL_ONE | GL_ZERO | GL_SRC_COLOR

datatype gl_call =
    SDL_GL_MakeCurrent "nat option"
  | GlGetError
  | GlGetIntegerv
  | GlGetBooleanv
  | GlViewport int int int int
  | GlCreateShader GLenum GLuint
  | GlShaderSource GLuint nat
  | GlCompileShader GLuint
  | GlGetShaderiv GLuint
  | GlShaderBinary GLuint GLenum nat
  | GlDeleteShader GLuint
  | GlCreateProgram GLuint
  | GlAttachShader GLuint GLuint
  | GlBindAttribLocation GLuint nat string
  | GlLinkProgram GLuint
  | GlGetProgramiv GLuint
  | GlDeleteProgram GLuint
  | GlGetUniformLocation GLuint string
  | GlUseProgram GLuint
  | GlUniformMatrix4fv GLuint "GLfloat list"
  | GlDisable gl_cap
  | GlEnable gl_cap
  | GlBlendFunc gl_factor gl_factor
  | GlActiveTexture
  | GlBindTexture GLenum GLenum
  | GlPixelStorei
  | GlTexSubImage2D GLenum int int int int GLenum GLenum "8 word list"

text \<open>The messages handed to \<^verbatim>\<open>SDL_SetError\<close> (and \<^verbatim>\<open>SDL_OutOfMemory\<close>).\<close>

datatype sdl_error =
    ERR_NoMatchingShader
  | ERR_CannotLoadOnPlatform
  | ERR_OutOfMemory
  | ERR_FailedToLoadShader
  | ERR_FailedToLinkProgram
  | ERR_FailedToSelectProgram
  | ERR_FailedToSetProjection
  | ERR_FailedToUpdateTexture
  | ERR_FailedToQueryFormats
  | ERR_OfTheVideoDriver

text \<open>
  \<^verbatim>\<open>GLES2_DriverContext\<close>, the two stores, the file's global
  \<^verbatim>\<open>SDL_CurrentContext\<close>, the size of the renderer's window and the trace.
\<close>

record state =
  gl_context :: "nat option"
  shader_formats :: "GLenum list"
  shader_cache_count :: int
  shader_cache_head :: "addr option"
  program_cache_count :: int
  program_cache_head :: "addr option"
  program_cache_tail :: "addr option"
  current_program :: "addr option"
  updateSize :: bool
  shaders :: "addr \<rightharpoonup> GLES2_ShaderCacheEntry"
  programs :: "addr \<rightharpoonup> GLES2_ProgramCacheEntry"
  SDL_CurrentContext :: "nat option"
  window_size :: "int \<times> int"
  gl_calls :: "gl_call list"

definition GLES2_MAX_CACHED_PROGRAMS :: int where
  "GLES2_MAX_CACHED_PROGRAMS = 8"

text \<open>What the allocator and the driver answer during one call.\<close>

record shader_env =
  se_alloc :: "addr option"
  se_id :: GLuint
  se_compiled :: bool
  se_glerror :: bool

record program_env =
  pe_alloc :: "addr option"
  pe_id :: GLuint
  pe_linked :: bool
  pe_glerror :: bool
  pe_locs :: "GLuint list"

record select_env =
  vertex_env :: shader_env
  fragment_env :: shader_env
  prog_env :: program_env
  use_glerror :: bool
  proj_glerror :: bool

definition gl :: "state \<Rightarrow> gl_call list \<Rightarrow> state" where
  "gl s cs = s\<lparr>gl_calls := gl_calls s @ cs\<rparr>"

text \<open>\<open>p->field = v\<close>: a write through a pointer that is not live has no result.\<close>

definition upd :: "(addr \<rightharpoonup> 'e) \<Rightarrow> addr \<Rightarrow> ('e \<Rightarrow> 'e) \<Rightarrow> (addr \<rightharpoonup> 'e) option" where
  "upd h a f = (case h a of None \<Rightarrow> None | Some e \<Rightarrow> Some (h(a \<mapsto> f e)))"

section \<open>Context and viewport binding\<close>

datatype SDL_WindowEventID = SDL_WINDOWEVENT_RESIZED | SDL_WINDOWEVENT_OTHER nat

text \<open>
  \<^verbatim>\<open>GLES2_ActivateRenderer\<close>; \<open>make_current_ok\<close> is whether
  \<^verbatim>\<open>SDL_GL_MakeCurrent\<close>, if called, succeeds.
\<close>

definition GLES2_ActivateRenderer :: "state \<Rightarrow> bool \<Rightarrow> int \<times> state" where
  "GLES2_ActivateRenderer s make_current_ok =
     (if SDL_CurrentContext s \<noteq> gl_context s \<and> \<not> make_current_ok
      then (- 1, gl (s\<lparr>current_program := None\<rparr>) [SDL_GL_MakeCurrent (gl_context s)])
      else
        let s1 = (if SDL_CurrentContext s \<noteq> gl_context s
                  then (gl (s\<lparr>current_program := None\<rparr>) [SDL_GL_MakeCurrent (gl_context s)])
                         \<lparr>SDL_CurrentContext := gl_context s\<rparr>
                  else s)
        in if updateSize s1
           then (0, (gl s1 [GlViewport 0 0 (fst (window_size s1)) (snd (window_size s1))])
                       \<lparr>updateSize := False\<rparr>)
           else (0, s1))"

definition GLES2_WindowEvent :: "state \<Rightarrow> SDL_WindowEventID \<Rightarrow> state" where
  "GLES2_WindowEvent s event =
     (if event = SDL_WINDOWEVENT_RESIZED
      then s\<lparr>SDL_CurrentContext := None, updateSize := True\<rparr>
      else s)"

section \<open>Shader cache\<close>

text \<open>
  The two loops of \<^verbatim>\<open>GLES2_CacheShader\<close> that pick the instance: the
  \<^verbatim>\<open>break\<close> leaves the loop over the formats only, and the loop over the
  instances goes on. (\<^verbatim>\<open>shader->instances\<close> is an array, so the test
  \<^verbatim>\<open>!shader->instances\<close> is never true.)
\<close>

fun format_loop ::
  "GLES2_ShaderInstance \<Rightarrow> GLenum list \<Rightarrow> GLES2_ShaderInstance option \<Rightarrow> GLES2_ShaderInstance option"
where
  "format_loop inst [] instance = instance"
| "format_loop inst (fmt # fmts) instance =
     (if inst_format inst = fmt then Some inst else format_loop inst fmts instance)"

fun instance_loop ::
  "GLES2_ShaderInstance list \<Rightarrow> GLenum list \<Rightarrow> GLES2_ShaderInstance option \<Rightarrow> GLES2_ShaderInstance option"
where
  "instance_loop [] fmts instance = instance"
| "instance_loop (inst # insts) fmts instance =
     instance_loop insts fmts (format_loop inst fmts instance)"

text \<open>
  The scan \<^verbatim>\<open>while (entry) { if (entry->instance == instance) break; entry = entry->next; }\<close>
  of the shader cache, and below the same scan of the program cache for the pair
  \<open>key = (vertex, fragment)\<close>.
\<close>

partial_function (option) find_shader ::
  "(addr \<rightharpoonup> GLES2_ShaderCacheEntry) \<Rightarrow> nat \<Rightarrow> addr option \<Rightarrow> addr option option"
where
  "find_shader h instance entry =
     (case entry of
        None \<Rightarrow> Some None
      | Some a \<Rightarrow>
          (case h a of
             None \<Rightarrow> None
           | Some e \<Rightarrow>
               if sh_instance e = instance then Some (Some a)
               else find_shader h instance (sh_next e)))"

text \<open>
  The part of \<^verbatim>\<open>GLES2_CacheShader\<close> after a cache miss. The allocator
  answers \<open>NULL\<close> or a block that is not live; an answer naming a live block is not a
  behaviour of \<^verbatim>\<open>SDL_calloc\<close> and has no result.
\<close>

definition create_shader ::
  "state \<Rightarrow> GLES2_ShaderType \<Rightarrow> GLES2_ShaderInstance \<Rightarrow> shader_env \<Rightarrow> ((sdl_error + addr) \<times> state) option"
where
  "create_shader s type instance env =
     (case se_alloc env of
        None \<Rightarrow> Some (Inl ERR_OutOfMemory, s)
      | Some entry \<Rightarrow>
          if shaders s entry \<noteq> None then None
          else
            let e0 = \<lparr>sh_id = se_id env, sh_type = type, sh_instance = inst_ptr instance,
                      references = 0, sh_prev = None, sh_next = None\<rparr>;
                s1 = gl s ([GlGetError, GlCreateShader (inst_type instance) (se_id env)] @
                       (if inst_format instance = - 1
                        then [GlShaderSource (se_id env) (inst_ptr instance),
                              GlCompileShader (se_id env), GlGetShaderiv (se_id env)]
                        else [GlShaderBinary (se_id env) (inst_format instance) (inst_ptr instance)]) @
                       [GlGetError]);
                compileSuccessful = (if inst_format instance = - 1 then se_compiled env else True)
            in if se_glerror env \<or> \<not> compileSuccessful
               then Some (Inl ERR_FailedToLoadShader, gl s1 [GlDeleteShader (se_id env)])
               else
                 (case shader_cache_head s of
                    None \<Rightarrow>
                      Some (Inr entry,
                            s1\<lparr>shaders := (shaders s)(entry \<mapsto> e0),
                               shader_cache_head := Some entry,
                               shader_cache_count := shader_cache_count s + 1\<rparr>)
                  | Some headp \<Rightarrow>
                      (case upd ((shaders s)(entry \<mapsto> e0\<lparr>sh_next := Some headp\<rparr>)) headp
                              (\<lambda>e. e\<lparr>sh_prev := Some entry\<rparr>) of
                         None \<Rightarrow> None
                       | Some h' \<Rightarrow>
                           Some (Inr entry,
                                 s1\<lparr>shaders := h',
                                    shader_cache_head := Some entry,
                                    shader_cache_count := shader_cache_count s + 1\<rparr>))))"

definition GLES2_CacheShader ::
  "get_shader \<Rightarrow> state \<Rightarrow> GLES2_ShaderType \<Rightarrow> int \<Rightarrow> shader_env \<Rightarrow> ((sdl_error + addr) \<times> state) option"
where
  "GLES2_CacheShader GLES2_GetShader s type blendMode env =
     (case GLES2_GetShader type blendMode of
        None \<Rightarrow> Some (Inl ERR_NoMatchingShader, s)
      | Some shader \<Rightarrow>
          (case instance_loop (instances shader) (shader_formats s) None of
             None \<Rightarrow> Some (Inl ERR_CannotLoadOnPlatform, s)
           | Some instance \<Rightarrow>
               (case find_shader (shaders s) (inst_ptr instance) (shader_cache_head s) of
                  None \<Rightarrow> None
                | Some (Some entry) \<Rightarrow> Some (Inr entry, s)
                | Some None \<Rightarrow> create_shader s type instance env)))"

text \<open>\<^verbatim>\<open>GLES2_EvictShader\<close>; each statement reads the fields again, as the C does.\<close>

definition GLES2_EvictShader :: "state \<Rightarrow> addr \<Rightarrow> state option" where
  "GLES2_EvictShader s entry =
     do {
       e \<leftarrow> shaders s entry;
       h1 \<leftarrow> (case sh_next e of
                None \<Rightarrow> Some (shaders s)
              | Some n \<Rightarrow> upd (shaders s) n (\<lambda>x. x\<lparr>sh_prev := sh_prev e\<rparr>));
       e1 \<leftarrow> h1 entry;
       h2 \<leftarrow> (case sh_prev e1 of
                None \<Rightarrow> Some h1
              | Some p \<Rightarrow> upd h1 p (\<lambda>x. x\<lparr>sh_next := sh_next e1\<rparr>));
       e2 \<leftarrow> h2 entry;
       Some ((gl s [GlDeleteShader (sh_id e2)])
               \<lparr>shaders := h2(entry := None),
                shader_cache_head :=
                  (if shader_cache_head s = Some entry then sh_next e2 else shader_cache_head s),
                shader_cache_count := shader_cache_count s - 1\<rparr>)
     }"

section \<open>Program cache\<close>

partial_function (option) find_program ::
  "(addr \<rightharpoonup> GLES2_ProgramCacheEntry) \<Rightarrow> addr \<times> addr \<Rightarrow> addr option \<Rightarrow> addr option option"
where
  "find_program h key entry =
     (case entry of
        None \<Rightarrow> Some None
      | Some a \<Rightarrow>
          (case h a of
             None \<Rightarrow> None
           | Some e \<Rightarrow>
               if vertex_shader e = fst key \<and> fragment_shader e = snd key then Some (Some a)
               else find_program h key (pr_next e)))"

text \<open>
  The promotion of a found entry to the head, run when
  \<^verbatim>\<open>program_cache.count > 1\<close>. The tail pointer is not touched.
\<close>

definition promote :: "state \<Rightarrow> addr \<Rightarrow> state option" where
  "promote s entry =
     do {
       e \<leftarrow> programs s entry;
       h1 \<leftarrow> (case pr_next e of
                None \<Rightarrow> Some (programs s)
              | Some n \<Rightarrow> upd (programs s) n (\<lambda>x. x\<lparr>pr_prev := pr_prev e\<rparr>));
       e1 \<leftarrow> h1 entry;
       h2 \<leftarrow> (case pr_prev e1 of
                None \<Rightarrow> Some h1
              | Some p \<Rightarrow> upd h1 p (\<lambda>x. x\<lparr>pr_next := pr_next e1\<rparr>));
       h3 \<leftarrow> upd h2 entry (\<lambda>x. x\<lparr>pr_prev := None\<rparr>);
       h4 \<leftarrow> upd h3 entry (\<lambda>x. x\<lparr>pr_next := program_cache_head s\<rparr>);
       headp \<leftarrow> program_cache_head s;
       h5 \<leftarrow> upd h4 headp (\<lambda>x. x\<lparr>pr_prev := Some entry\<rparr>);
       Some (s\<lparr>programs := h5, program_cache_head := Some entry\<rparr>)
     }"

text \<open>\<^verbatim>\<open>if (--shaderEntry->references <= 0) GLES2_EvictShader(renderer, shaderEntry);\<close>\<close>

definition unref_shader :: "state \<Rightarrow> addr \<Rightarrow> state option" where
  "unref_shader s shaderEntry =
     do {
       h \<leftarrow> upd (shaders s) shaderEntry (\<lambda>x. x\<lparr>references := references x - 1\<rparr>);
       e \<leftarrow> h shaderEntry;
       if references e \<le> 0 then GLES2_EvictShader (s\<lparr>shaders := h\<rparr>) shaderEntry
       else Some (s\<lparr>shaders := h\<rparr>)
     }"

text \<open>The eviction of the entry under \<^verbatim>\<open>program_cache.tail\<close>.\<close>

definition evict_tail :: "state \<Rightarrow> state option" where
  "evict_tail s =
     do {
       t \<leftarrow> program_cache_tail s;
       te \<leftarrow> programs s t;
       s1 \<leftarrow> unref_shader s (vertex_shader te);
       te1 \<leftarrow> programs s1 t;
       s2 \<leftarrow> unref_shader s1 (fragment_shader te1);
       te2 \<leftarrow> programs s2 t;
       let s3 = gl s2 [GlDeleteProgram (pr_id te2)];
       nt \<leftarrow> pr_prev te2;
       nte \<leftarrow> programs s3 nt;
       h1 \<leftarrow> (case pr_next nte of
                None \<Rightarrow> Some (programs s3)
              | Some x \<Rightarrow> if programs s3 x = None then None else Some ((programs s3)(x := None)));
       h2 \<leftarrow> upd h1 nt (\<lambda>x. x\<lparr>pr_next := None\<rparr>);
       Some (s3\<lparr>programs := h2, program_cache_tail := Some nt,
                 program_cache_count := program_cache_count s3 - 1\<rparr>)
     }"

definition uniform_names :: "string list" where
  "uniform_names = [''u_projection'', ''u_texture'', ''u_modulation'', ''u_color'', ''u_colorTable'']"

text \<open>The part of \<^verbatim>\<open>GLES2_CacheProgram\<close> after a cache miss.\<close>

definition create_program ::
  "state \<Rightarrow> addr \<Rightarrow> addr \<Rightarrow> int \<Rightarrow> program_env \<Rightarrow> ((sdl_error + addr) \<times> state) option"
where
  "create_program s vertex fragment blendMode env =
     (case pe_alloc env of
        None \<Rightarrow> Some (Inl ERR_OutOfMemory, s)
      | Some entry \<Rightarrow>
          if programs s entry \<noteq> None then None
          else
            do {
              v \<leftarrow> shaders s vertex;
              f \<leftarrow> shaders s fragment;
              let s1 = gl s [GlGetError, GlCreateProgram (pe_id env),
                             GlAttachShader (pe_id env) (sh_id v),
                             GlAttachShader (pe_id env) (sh_id f),
                             GlBindAttribLocation (pe_id env) 0 ''a_position'',
                             GlBindAttribLocation (pe_id env) 1 ''a_texCoord'',
                             GlLinkProgram (pe_id env), GlGetProgramiv (pe_id env), GlGetError];
              if pe_glerror env \<or> \<not> pe_linked env
              then Some (Inl ERR_FailedToLinkProgram, gl s1 [GlDeleteProgram (pe_id env)])
              else
                do {
                  let e0 = \<lparr>pr_id = pe_id env, blend_mode = blendMode,
                            vertex_shader = vertex, fragment_shader = fragment,
                            uniform_locations = take 5 (pe_locs env) @ replicate (16 - length (take 5 (pe_locs env))) 0,
                            pr_prev = None, pr_next = program_cache_head s\<rparr>;
                  let s2 = gl s1 (map (GlGetUniformLocation (pe_id env)) uniform_names);
                  h1 \<leftarrow> (case program_cache_head s of
                           None \<Rightarrow> Some ((programs s)(entry \<mapsto> e0))
                         | Some headp \<Rightarrow> upd ((programs s)(entry \<mapsto> e0)) headp (\<lambda>x. x\<lparr>pr_prev := Some entry\<rparr>));
                  let s3 = s2\<lparr>programs := h1,
                              program_cache_tail :=
                                (if program_cache_head s = None then Some entry else program_cache_tail s),
                              program_cache_head := Some entry,
                              program_cache_count := program_cache_count s + 1\<rparr>;
                  sh1 \<leftarrow> upd (shaders s3) vertex (\<lambda>x. x\<lparr>references := references x + 1\<rparr>);
                  sh2 \<leftarrow> upd sh1 fragment (\<lambda>x. x\<lparr>references := references x + 1\<rparr>);
                  let s4 = s3\<lparr>shaders := sh2\<rparr>;
                  s5 \<leftarrow> (if program_cache_count s4 > GLES2_MAX_CACHED_PROGRAMS
                          then evict_tail s4 else Some s4);
                  Some (Inr entry, s5)
                }
            })"

definition GLES2_CacheProgram ::
  "state \<Rightarrow> addr \<Rightarrow> addr \<Rightarrow> int \<Rightarrow> program_env \<Rightarrow> ((sdl_error + addr) \<times> state) option"
where
  "GLES2_CacheProgram s vertex fragment blendMode env =
     (case find_program (programs s) (vertex, fragment) (program_cache_head s) of
        None \<Rightarrow> None
      | Some (Some entry) \<Rightarrow>
          if program_cache_count s > 1
          then (case promote s entry of None \<Rightarrow> None | Some s1 \<Rightarrow> Some (Inr entry, s1))
          else Some (Inr entry, s)
      | Some None \<Rightarrow> create_program s vertex fragment blendMode env)"

section \<open>Pipeline selection\<close>

text \<open>
  Single-precision arithmetic on the operands the renderer has. \<open>round_even\<close> rounds
  a real number to the nearest integer, ties to even. \<open>round32 n d\<close> is the
  single-precision number nearest to the quotient \<open>n / d\<close> of two positive integers:
  with \<open>e = float_exponent n d\<close> the exponent of the quotient
  (\<open>2 powi e \<le> n / d < 2 powi (e + 1)\<close>, found from the bit lengths of \<open>n\<close> and \<open>d\<close>),
  the quotient is rounded to a multiple of \<open>2 powi (e - 23)\<close>, which leaves a
  significand of 24 bits (for quotients of 32-bit integers the exponent stays far inside
  the range of the format, so there is neither overflow nor a subnormal result).
  \<open>GLfloat_of_int\<close> is the conversion \<^verbatim>\<open>(GLfloat)w\<close> of an \<^verbatim>\<open>int\<close>, whose value is
  again an integer, and \<open>GLfloat_div a b\<close> is the quotient \<open>a / b\<close> of two
  single-precision numbers with integer values.
\<close>

definition round_even :: "real \<Rightarrow> int" where
  "round_even x =
     (let f = \<lfloor>x\<rfloor>; r = x - of_int f
      in if r < 1 / 2 then f else if 1 / 2 < r then f + 1 else if even f then f else f + 1)"

definition float_exponent :: "int \<Rightarrow> int \<Rightarrow> int" where
  "float_exponent n d =
     (let k = bitlen n - bitlen d
      in if 2 powi k \<le> real_of_int n / real_of_int d then k else k - 1)"

definition round32 :: "int \<Rightarrow> int \<Rightarrow> real" where
  "round32 n d =
     (let e = float_exponent n d
      in real_of_int (round_even (real_of_int n / real_of_int d * 2 powi (23 - e)))
           * 2 powi (e - 23))"

definition GLfloat_of_int :: "int \<Rightarrow> int" where
  "GLfloat_of_int w =
     (if bitlen \<bar>w\<bar> \<le> 24 then w
      else sgn w * (round_even (real_of_int \<bar>w\<bar> / 2 ^ nat (bitlen \<bar>w\<bar> - 24))
                     * 2 ^ nat (bitlen \<bar>w\<bar> - 24)))"

definition GLfloat_div :: "int \<Rightarrow> int \<Rightarrow> GLfloat" where
  "GLfloat_div a b =
     (if b = 0 then (if 0 < a then PlusInfinity else if a < 0 then MinusInfinity else NaN)
      else if a = 0 then Finite 0
      else Finite (real_of_int (sgn a * sgn b) * round32 \<bar>a\<bar> \<bar>b\<bar>))"

text \<open>
  The matrix of \<^verbatim>\<open>GLES2_SetOrthographicProjection\<close>, \<open>projection[i][j]\<close> being
  the \<open>j\<close>-th entry of the \<open>i\<close>-th list. In \<^verbatim>\<open>2.0f / w\<close> the \<^verbatim>\<open>int\<close> is
  converted to \<^verbatim>\<open>GLfloat\<close> and the quotient is rounded to single precision.
\<close>

definition projection :: "int \<Rightarrow> int \<Rightarrow> GLfloat list list" where
  "projection w h =
     [[GLfloat_div 2 (GLfloat_of_int w), Finite 0, Finite 0, Finite 0],
      [Finite 0, GLfloat_div (- 2) (GLfloat_of_int h), Finite 0, Finite 0],
      [Finite 0, Finite 0, Finite 1, Finite 0],
      [Finite (- 1), Finite 1, Finite 0, Finite 1]]"

definition GLES2_SetOrthographicProjection ::
  "state \<Rightarrow> bool \<Rightarrow> ((sdl_error + unit) \<times> state) option"
where
  "GLES2_SetOrthographicProjection s glerror =
     do {
       cp \<leftarrow> current_program s;
       ce \<leftarrow> programs s cp;
       let locProjection = uniform_locations ce ! 0;
       let s1 = gl s [GlGetError,
                      GlUniformMatrix4fv locProjection
                        (concat (projection (fst (window_size s)) (snd (window_size s)))),
                      GlGetError];
       Some (if glerror then Inl ERR_FailedToSetProjection else Inr (), s1)
     }"

text \<open>
  What a column-major matrix of real numbers does to the vertex \<open>(x, y, 0, 1)\<close>
  (\<^verbatim>\<open>u_projection * vec4(a_position, 0, 1)\<close> in the vertex shader): the first two
  coordinates of the product, in exact arithmetic. \<open>finite_matrix\<close> gives the real
  entries of a matrix of finite \<^verbatim>\<open>GLfloat\<close>s.
\<close>

fun finite_value :: "GLfloat \<Rightarrow> real option" where
  "finite_value (Finite x) = Some x"
| "finite_value PlusInfinity = None"
| "finite_value MinusInfinity = None"
| "finite_value NaN = None"

definition finite_matrix :: "GLfloat list list \<Rightarrow> real list list option" where
  "finite_matrix m = those (map (\<lambda>row. those (map finite_value row)) m)"

definition to_ndc :: "real list list \<Rightarrow> real \<times> real \<Rightarrow> real \<times> real" where
  "to_ndc m p =
     (m ! 0 ! 0 * fst p + m ! 1 ! 0 * snd p + m ! 2 ! 0 * 0 + m ! 3 ! 0 * 1,
      m ! 0 ! 1 * fst p + m ! 1 ! 1 * snd p + m ! 2 ! 1 * 0 + m ! 3 ! 1 * 1)"

text \<open>The code under the label \<^verbatim>\<open>fault\<close> of \<^verbatim>\<open>GLES2_SelectProgram\<close>.\<close>

definition evict_if_unreferenced :: "state \<Rightarrow> addr option \<Rightarrow> state option" where
  "evict_if_unreferenced s p =
     (case p of
        None \<Rightarrow> Some s
      | Some a \<Rightarrow>
          (case shaders s a of
             None \<Rightarrow> None
           | Some e \<Rightarrow> if references e \<le> 0 then GLES2_EvictShader s a else Some s))"

definition fault ::
  "state \<Rightarrow> addr option \<Rightarrow> addr option \<Rightarrow> sdl_error \<Rightarrow> ((sdl_error + unit) \<times> state) option"
where
  "fault s vertex fragment err =
     do {
       s1 \<leftarrow> evict_if_unreferenced s vertex;
       s2 \<leftarrow> evict_if_unreferenced s1 fragment;
       Some (Inl err, s2\<lparr>current_program := None\<rparr>)
     }"

text \<open>The test \<^verbatim>\<open>rdata->current_program && ...->vertex_shader == vertex && ...\<close>.\<close>

definition current_matches :: "state \<Rightarrow> addr \<Rightarrow> addr \<Rightarrow> bool option" where
  "current_matches s vertex fragment =
     (case current_program s of
        None \<Rightarrow> Some False
      | Some cp \<Rightarrow>
          (case programs s cp of
             None \<Rightarrow> None
           | Some ce \<Rightarrow> Some (vertex_shader ce = vertex \<and> fragment_shader ce = fragment)))"

text \<open>The part of \<^verbatim>\<open>GLES2_SelectProgram\<close> from \<^verbatim>\<open>GLES2_CacheProgram\<close> on.\<close>

definition use_program ::
  "state \<Rightarrow> addr \<Rightarrow> addr \<Rightarrow> int \<Rightarrow> select_env \<Rightarrow> ((sdl_error + unit) \<times> state) option"
where
  "use_program s vertex fragment blendMode env =
     (case GLES2_CacheProgram s vertex fragment blendMode (prog_env env) of
        None \<Rightarrow> None
      | Some (Inl err, s1) \<Rightarrow> fault s1 (Some vertex) (Some fragment) err
      | Some (Inr program, s1) \<Rightarrow>
          (case programs s1 program of
             None \<Rightarrow> None
           | Some pe \<Rightarrow>
               let s2 = gl s1 [GlGetError, GlUseProgram (pr_id pe), GlGetError]
               in if use_glerror env
                  then fault s2 (Some vertex) (Some fragment) ERR_FailedToSelectProgram
                  else
                    (case GLES2_SetOrthographicProjection (s2\<lparr>current_program := Some program\<rparr>)
                            (proj_glerror env) of
                       None \<Rightarrow> None
                     | Some (Inl err, s3) \<Rightarrow> fault s3 (Some vertex) (Some fragment) err
                     | Some (Inr u, s3) \<Rightarrow> Some (Inr (), s3))))"

definition fragment_type :: "GLES2_ImageSource \<Rightarrow> GLES2_ShaderType" where
  "fragment_type source =
     (case source of
        GLES2_IMAGESOURCE_SOLID \<Rightarrow> GLES2_SHADER_FRAGMENT_SOLID_SRC
      | GLES2_IMAGESOURCE_TEXTURE \<Rightarrow> GLES2_SHADER_FRAGMENT_TEXTURE_SRC)"

definition GLES2_SelectProgram ::
  "get_shader \<Rightarrow> state \<Rightarrow> GLES2_ImageSource \<Rightarrow> int \<Rightarrow> select_env \<Rightarrow> ((sdl_error + unit) \<times> state) option"
where
  "GLES2_SelectProgram GLES2_GetShader s source blendMode env =
     (case GLES2_CacheShader GLES2_GetShader s GLES2_SHADER_VERTEX_DEFAULT blendMode (vertex_env env) of
        None \<Rightarrow> None
      | Some (Inl err, s1) \<Rightarrow> fault s1 None None err
      | Some (Inr vertex, s1) \<Rightarrow>
          (case GLES2_CacheShader GLES2_GetShader s1 (fragment_type source) blendMode (fragment_env env) of
             None \<Rightarrow> None
           | Some (Inl err, s2) \<Rightarrow> fault s2 (Some vertex) None err
           | Some (Inr fragment, s2) \<Rightarrow>
               (case current_matches s2 vertex fragment of
                  None \<Rightarrow> None
                | Some True \<Rightarrow> Some (Inr (), s2)
                | Some False \<Rightarrow> use_program s2 vertex fragment blendMode env)))"

section \<open>Blend state\<close>

text \<open>
  Modelled from the spec: the four blend modes (none, alpha blend, additive,
  multiplicative) are the enumeration \<^verbatim>\<open>SDL_BlendMode\<close> of
  \<^verbatim>\<open>include/SDL_blendmode.h\<close>, which is not among the sources; the values are those
  of that header.
\<close>

definition SDL_BLENDMODE_NONE :: int where "SDL_BLENDMODE_NONE = 0"
definition SDL_BLENDMODE_BLEND :: int where "SDL_BLENDMODE_BLEND = 1"
definition SDL_BLENDMODE_ADD :: int where "SDL_BLENDMODE_ADD = 2"
definition SDL_BLENDMODE_MOD :: int where "SDL_BLENDMODE_MOD = 4"

definition GLES2_SetBlendMode :: "state \<Rightarrow> int \<Rightarrow> state" where
  "GLES2_SetBlendMode s blendMode =
     (if blendMode = SDL_BLENDMODE_BLEND
      then gl s [GlEnable GL_BLEND, GlBlendFunc GL_SRC_ALPHA GL_ONE_MINUS_SRC_ALPHA]
      else if blendMode = SDL_BLENDMODE_ADD
      then gl s [GlEnable GL_BLEND, GlBlendFunc GL_SRC_ALPHA GL_ONE]
      else if blendMode = SDL_BLENDMODE_MOD
      then gl s [GlEnable GL_BLEND, GlBlendFunc GL_ZERO GL_SRC_COLOR]
      else gl s [GlDisable GL_BLEND])"

section \<open>Texture update\<close>

record SDL_Rect =
  rect_x :: int
  rect_y :: int
  rect_w :: int
  rect_h :: int

record GLES2_TextureData =
  td_texture :: GLenum
  td_texture_type :: GLenum
  td_pixel_format :: GLenum
  td_pixel_type :: GLenum
  td_pixel_data :: "8 word list option"
  td_pitch :: int

record SDL_Texture =
  tex_w :: int
  tex_h :: int
  driverdata :: GLES2_TextureData

record update_env =
  ue_make_current_ok :: bool
  ue_blob_alloc :: bool
  ue_glerror :: bool

text \<open>Reading and writing a run of bytes of a buffer; outside the buffer there is no result.\<close>

definition read_bytes :: "8 word list \<Rightarrow> int \<Rightarrow> int \<Rightarrow> 8 word list option" where
  "read_bytes buf off n =
     (if 0 \<le> off \<and> 0 \<le> n \<and> off + n \<le> int (length buf)
      then Some (take (nat n) (drop (nat off) buf)) else None)"

definition write_bytes :: "8 word list \<Rightarrow> int \<Rightarrow> 8 word list \<Rightarrow> 8 word list option" where
  "write_bytes buf off bytes =
     (if 0 \<le> off \<and> off + int (length bytes) \<le> int (length buf)
      then Some (take (nat off) buf @ bytes @ drop (nat off + length bytes) buf) else None)"

text \<open>The loop that packs the rows of the caller's pixels into the blob.\<close>

fun pack_rows :: "8 word list \<Rightarrow> int \<Rightarrow> int \<Rightarrow> int \<Rightarrow> nat \<Rightarrow> 8 word list option" where
  "pack_rows pixels off pitch srcPitch 0 = Some []"
| "pack_rows pixels off pitch srcPitch (Suc n) =
     (case read_bytes pixels off srcPitch of
        None \<Rightarrow> None
      | Some row \<Rightarrow>
          (case pack_rows pixels (off + pitch) pitch srcPitch n of
             None \<Rightarrow> None
           | Some rest \<Rightarrow> Some (row @ rest)))"

text \<open>The loop that copies the rows into the streaming buffer.\<close>

fun store_rows ::
  "8 word list \<Rightarrow> int \<Rightarrow> int \<Rightarrow> 8 word list \<Rightarrow> int \<Rightarrow> nat \<Rightarrow> 8 word list option"
where
  "store_rows buf dest dpitch src srcPitch 0 = Some buf"
| "store_rows buf dest dpitch src srcPitch (Suc n) =
     (case read_bytes src 0 srcPitch of
        None \<Rightarrow> None
      | Some row \<Rightarrow>
          (case write_bytes buf dest row of
             None \<Rightarrow> None
           | Some buf' \<Rightarrow> store_rows buf' (dest + dpitch) dpitch (drop (nat srcPitch) src) srcPitch n))"

text \<open>
  \<^verbatim>\<open>GLES2_UpdateTexture\<close>; \<open>bpp\<close> is \<^verbatim>\<open>SDL_BYTESPERPIXEL(texture->format)\<close>, a
  macro of a header that is not among the sources, of type \<^verbatim>\<open>Uint32\<close>: the product
  \<^verbatim>\<open>rect->w * SDL_BYTESPERPIXEL(texture->format)\<close> is computed modulo \<open>2 ^ 32\<close> and
  stored in the \<^verbatim>\<open>int\<close> \<open>srcPitch\<close>. The result of \<^verbatim>\<open>GLES2_ActivateRenderer\<close> is
  dropped, as in the C.
\<close>

definition GLES2_UpdateTexture ::
  "state \<Rightarrow> SDL_Texture \<Rightarrow> int \<Rightarrow> SDL_Rect \<Rightarrow> 8 word list \<Rightarrow> int \<Rightarrow> update_env
     \<Rightarrow> ((sdl_error + unit) \<times> state \<times> SDL_Texture) option"
where
  "GLES2_UpdateTexture s texture bpp rect pixels pitch env =
     (let s0 = snd (GLES2_ActivateRenderer s (ue_make_current_ok env));
          tdata = driverdata texture;
          srcPitch = sint (word_of_int (rect_w rect * bpp) :: 32 word)
      in if rect_w rect \<le> 0 \<or> rect_h rect \<le> 0 then Some (Inr (), s0, texture)
         else if pitch \<noteq> srcPitch \<and> \<not> ue_blob_alloc env then Some (Inl ERR_OutOfMemory, s0, texture)
         else
           (case (if pitch \<noteq> srcPitch
                  then pack_rows pixels 0 pitch srcPitch (nat (rect_h rect))
                  else read_bytes pixels 0 (srcPitch * rect_h rect)) of
              None \<Rightarrow> None
            | Some src \<Rightarrow>
                let s1 = gl s0 [GlGetError, GlActiveTexture,
                                GlBindTexture (td_texture_type tdata) (td_texture tdata),
                                GlPixelStorei,
                                GlTexSubImage2D (td_texture_type tdata) (rect_x rect) (rect_y rect)
                                  (rect_w rect) (rect_h rect) (td_pixel_format tdata)
                                  (td_pixel_type tdata) src,
                                GlGetError]
                in if ue_glerror env then Some (Inl ERR_FailedToUpdateTexture, s1, texture)
                   else
                     (case td_pixel_data tdata of
                        None \<Rightarrow> Some (Inr (), s1, texture)
                      | Some buf \<Rightarrow>
                          (case (if rect_w rect = tex_w texture
                                 then write_bytes buf (td_pitch tdata * rect_y rect + bpp * rect_x rect) src
                                 else store_rows buf (td_pitch tdata * rect_y rect + bpp * rect_x rect)
                                        (td_pitch tdata) src srcPitch (nat (rect_h rect))) of
                             None \<Rightarrow> None
                           | Some buf' \<Rightarrow>
                               Some (Inr (), s1,
                                     texture\<lparr>driverdata := tdata\<lparr>td_pixel_data := Some buf'\<rparr>\<rparr>)))))"

section \<open>Renderer creation\<close>

text \<open>
  What the allocator, the video driver and OpenGL answer during
  \<^verbatim>\<open>GLES2_CreateRenderer\<close> (the branch without \<^verbatim>\<open>ZUNE_HD\<close>): whether each of the
  three \<^verbatim>\<open>SDL_calloc\<close> calls succeeds, the context created, and the shader formats.
\<close>

record create_env =
  ce_renderer_alloc :: bool
  ce_rdata_alloc :: bool
  ce_context :: "nat option"
  ce_make_current_ok :: bool
  ce_binary_formats :: "GLenum list"
  ce_hasCompiler :: bool
  ce_formats_alloc :: bool
  ce_glerror :: bool

text \<open>
  \<^verbatim>\<open>GLES2_CreateRenderer\<close>. Only \<^verbatim>\<open>renderer\<close> is tested after the two allocations;
  with \<^verbatim>\<open>rdata\<close> \<open>NULL\<close> the store \<^verbatim>\<open>rdata->context = ...\<close> goes through a
  \<open>NULL\<close> pointer. \<open>cur\<close> is the value of \<^verbatim>\<open>SDL_CurrentContext\<close>, which the function
  leaves as it is. Of the renderer structure only the driver data is modelled.
\<close>

definition GLES2_CreateRenderer ::
  "create_env \<Rightarrow> int \<times> int \<Rightarrow> nat option \<Rightarrow> (sdl_error + state) option"
where
  "GLES2_CreateRenderer env wsize cur =
     (if \<not> ce_renderer_alloc env then Some (Inl ERR_OutOfMemory)
      else if \<not> ce_rdata_alloc env then None
      else
        (case ce_context env of
           None \<Rightarrow> Some (Inl ERR_OfTheVideoDriver)
         | Some c \<Rightarrow>
             if \<not> ce_make_current_ok env then Some (Inl ERR_OfTheVideoDriver)
             else if \<not> ce_formats_alloc env then Some (Inl ERR_OutOfMemory)
             else if ce_glerror env then Some (Inl ERR_FailedToQueryFormats)
             else
               Some (Inr \<lparr>gl_context = Some c,
                          shader_formats =
                            ce_binary_formats env @ (if ce_hasCompiler env then [- 1] else []),
                          shader_cache_count = 0, shader_cache_head = None,
                          program_cache_count = 0, program_cache_head = None,
                          program_cache_tail = None, current_program = None,
                          updateSize = False, shaders = Map.empty, programs = Map.empty,
                          SDL_CurrentContext = cur, window_size = wsize,
                          gl_calls = [SDL_GL_MakeCurrent (Some c), GlGetError, GlGetIntegerv,
                                      GlGetBooleanv, GlGetIntegerv, GlGetError]\<rparr>)))"

section \<open>Well-formed caches and reachable states\<close>

text \<open>
  The notions in which the properties of \<^verbatim>\<open>GLES2_SelectProgram\<close> are stated and
  proved. A cache is a doubly linked list in a store: \<open>linked prv nxt h p xs\<close> says that
  the entries at the distinct addresses \<open>xs\<close> are live in the store \<open>h\<close>, that the head
  pointer \<open>p\<close> is the first of them, and that the \<open>prev\<close> and \<open>next\<close> fields of each are
  its neighbours in \<open>xs\<close>.
\<close>

fun head_ptr :: "addr list \<Rightarrow> addr option" where
  "head_ptr [] = None"
| "head_ptr (x # xs) = Some x"

fun succ_of :: "addr list \<Rightarrow> addr \<Rightarrow> addr option" where
  "succ_of [] a = None"
| "succ_of (x # xs) a = (if x = a then head_ptr xs else succ_of xs a)"

fun pred_of :: "addr list \<Rightarrow> addr \<Rightarrow> addr option" where
  "pred_of [] a = None"
| "pred_of (x # xs) a = (if head_ptr xs = Some a then Some x else pred_of xs a)"

definition linked ::
  "('e \<Rightarrow> addr option) \<Rightarrow> ('e \<Rightarrow> addr option) \<Rightarrow> (addr \<rightharpoonup> 'e) \<Rightarrow> addr option \<Rightarrow> addr list \<Rightarrow> bool"
where
  "linked prv nxt h p xs \<longleftrightarrow>
     distinct xs \<and> p = head_ptr xs \<and>
     (\<forall>a \<in> set xs. \<exists>e. h a = Some e \<and> prv e = pred_of xs a \<and> nxt e = succ_of xs a)"

text \<open>
  The fields of a shader cache entry other than its links, and the store that the
  unlinking statements of \<^verbatim>\<open>GLES2_EvictShader\<close> leave when the entry \<open>a\<close> of the
  list \<open>xs\<close> is evicted.
\<close>

definition sh_core :: "GLES2_ShaderCacheEntry \<Rightarrow> GLuint \<times> GLES2_ShaderType \<times> nat \<times> int" where
  "sh_core e = (sh_id e, sh_type e, sh_instance e, references e)"

definition unlinked ::
  "(addr \<rightharpoonup> GLES2_ShaderCacheEntry) \<Rightarrow> addr list \<Rightarrow> addr \<Rightarrow> (addr \<rightharpoonup> GLES2_ShaderCacheEntry)"
where
  "unlinked h xs a =
     (\<lambda>x. if x = a then None
          else if succ_of xs a = Some x then map_option (\<lambda>e. e\<lparr>sh_prev := pred_of xs a\<rparr>) (h x)
          else if pred_of xs a = Some x then map_option (\<lambda>e. e\<lparr>sh_next := succ_of xs a\<rparr>) (h x)
          else h x)"

definition cores ::
  "(addr \<rightharpoonup> GLES2_ShaderCacheEntry) \<Rightarrow> (addr \<rightharpoonup> GLuint \<times> GLES2_ShaderType \<times> nat \<times> int)"
where
  "cores h = (\<lambda>x. map_option sh_core (h x))"

definition inst_of :: "(addr \<rightharpoonup> GLuint \<times> GLES2_ShaderType \<times> nat \<times> int) \<Rightarrow> addr \<Rightarrow> nat option" where
  "inst_of c x = map_option (\<lambda>t. fst (snd (snd t))) (c x)"

text \<open>
  The shader cache is well formed when the live shader entries are exactly the entries
  of a list that starts at \<^verbatim>\<open>shader_cache.head\<close>. \<open>frame_sh s s'\<close> says that
  \<open>s'\<close> differs from \<open>s\<close> in the shader cache and the trace only.
\<close>

definition shader_inv :: "state \<Rightarrow> addr list \<Rightarrow> bool" where
  "shader_inv s xs \<longleftrightarrow>
     linked sh_prev sh_next (shaders s) (shader_cache_head s) xs \<and> set xs = dom (shaders s)"

definition frame_sh :: "state \<Rightarrow> state \<Rightarrow> bool" where
  "frame_sh s s' \<longleftrightarrow>
     s' = s\<lparr>shaders := shaders s', shader_cache_head := shader_cache_head s',
            shader_cache_count := shader_cache_count s', gl_calls := gl_calls s'\<rparr>"

text \<open>
  The instance that the two loops of \<^verbatim>\<open>GLES2_CacheShader\<close> pick for a shader type
  and a blend mode, and the entry that the scan of the list \<open>xs\<close> finds for an instance.
\<close>

definition resolve :: "get_shader \<Rightarrow> state \<Rightarrow> GLES2_ShaderType \<Rightarrow> int \<Rightarrow> GLES2_ShaderInstance option" where
  "resolve G s t b =
     (case G t b of None \<Rightarrow> None | Some sh \<Rightarrow> instance_loop (instances sh) (shader_formats s) None)"

definition cached :: "state \<Rightarrow> addr list \<Rightarrow> nat \<Rightarrow> addr option" where
  "cached s xs i = List.find (\<lambda>x. inst_of (cores (shaders s)) x = Some i) xs"

text \<open>
  The pair of shaders of each live program entry, and the store that the promotion of
  the entry \<open>a\<close> of the list \<open>ps\<close> with head \<open>hp\<close> leaves when \<open>a\<close> is not the head.
\<close>

definition pairs :: "(addr \<rightharpoonup> GLES2_ProgramCacheEntry) \<Rightarrow> (addr \<rightharpoonup> addr \<times> addr)" where
  "pairs h = (\<lambda>p. map_option (\<lambda>e. (vertex_shader e, fragment_shader e)) (h p))"

definition promoted ::
  "(addr \<rightharpoonup> GLES2_ProgramCacheEntry) \<Rightarrow> addr list \<Rightarrow> addr \<Rightarrow> addr \<Rightarrow> (addr \<rightharpoonup> GLES2_ProgramCacheEntry)"
where
  "promoted h ps a hp =
     (\<lambda>x. map_option
            (\<lambda>e. e\<lparr>pr_prev := (if x = a then None else if x = hp then Some a
                               else if succ_of ps a = Some x then pred_of ps a else pr_prev e),
                    pr_next := (if x = a then Some hp
                               else if pred_of ps a = Some x then succ_of ps a else pr_next e)\<rparr>)
            (h x))"

text \<open>
  Reference counts. \<open>refcount M a\<close> is the number of times that the live program
  entries \<open>M\<close> point to the shader \<open>a\<close>, as vertex and as fragment shader. \<open>refs_ok\<close>
  says that the \<open>references\<close> field of every live shader entry is this number, and
  \<open>live_ok\<close> that the shaders of every live program entry are live. \<open>inc\<close> and \<open>dec\<close> are
  \<^verbatim>\<open>++references\<close> and \<^verbatim>\<open>if (--references <= 0) GLES2_EvictShader(...)\<close>, and
  \<open>shrinks C C'\<close> says that \<open>C'\<close> has no entry that \<open>C\<close> lacks, and no unreferenced entry
  that was referenced in \<open>C\<close>. The live program entries are all the entries of the
  store, also those that the eviction of a stale tail has cut off the list.
\<close>

type_synonym core_map = "addr \<rightharpoonup> GLuint \<times> GLES2_ShaderType \<times> nat \<times> int"

type_synonym pair_map = "addr \<rightharpoonup> addr \<times> addr"

definition refcount :: "pair_map \<Rightarrow> addr \<Rightarrow> nat" where
  "refcount M a = card {p. \<exists>f. M p = Some (a, f)} + card {p. \<exists>v. M p = Some (v, a)}"

definition refs_ok :: "core_map \<Rightarrow> pair_map \<Rightarrow> bool" where
  "refs_ok C M \<longleftrightarrow>
     finite (dom M) \<and> (\<forall>a i t n r. C a = Some (i, t, n, r) \<longrightarrow> r = int (refcount M a))"

definition live_ok :: "core_map \<Rightarrow> pair_map \<Rightarrow> bool" where
  "live_ok C M \<longleftrightarrow> (\<forall>p v f. M p = Some (v, f) \<longrightarrow> C v \<noteq> None \<and> C f \<noteq> None)"

definition inc :: "core_map \<Rightarrow> addr \<Rightarrow> core_map" where
  "inc C a = (case C a of None \<Rightarrow> C | Some (i, t, n, r) \<Rightarrow> C(a \<mapsto> (i, t, n, r + 1)))"

definition dec :: "core_map \<Rightarrow> addr \<Rightarrow> core_map" where
  "dec C a =
     (case C a of
        None \<Rightarrow> C
      | Some (i, t, n, r) \<Rightarrow> if r - 1 \<le> 0 then C(a := None) else C(a \<mapsto> (i, t, n, r - 1)))"

definition shrinks :: "core_map \<Rightarrow> core_map \<Rightarrow> bool" where
  "shrinks C C' \<longleftrightarrow>
     (\<forall>x i t n r'. C' x = Some (i, t, n, r') \<longrightarrow> (\<exists>r. C x = Some (i, t, n, r) \<and> (r' \<le> 0 \<longrightarrow> r \<le> 0)))"

definition abs_ok :: "state \<Rightarrow> bool" where
  "abs_ok s \<longleftrightarrow>
     refs_ok (cores (shaders s)) (pairs (programs s)) \<and>
     live_ok (cores (shaders s)) (pairs (programs s))"

text \<open>
  The shape of the program cache. Either the entries reached from
  \<^verbatim>\<open>program_cache.head\<close> are a list \<open>ps\<close> and \<^verbatim>\<open>program_cache.tail\<close> is one of its
  entries (not always the last: a hit leaves the pointer where it was), or the head
  entry points to itself in both directions, which is what the promotion of the head
  entry leaves. \<open>frame_gl s s'\<close> says that \<open>s'\<close> differs from \<open>s\<close> in the trace only.
\<close>

definition prog_list :: "state \<Rightarrow> addr list \<Rightarrow> bool" where
  "prog_list s ps \<longleftrightarrow> linked pr_prev pr_next (programs s) (program_cache_head s) ps"

definition tail_ok :: "state \<Rightarrow> addr list \<Rightarrow> bool" where
  "tail_ok s ps \<longleftrightarrow>
     (ps = [] \<longrightarrow> program_cache_count s = 0) \<and>
     (ps \<noteq> [] \<longrightarrow> (\<exists>t. program_cache_tail s = Some t \<and> t \<in> set ps))"

definition frame_gl :: "state \<Rightarrow> state \<Rightarrow> bool" where
  "frame_gl s s' \<longleftrightarrow> s' = s\<lparr>gl_calls := gl_calls s'\<rparr>"

definition self_loop :: "state \<Rightarrow> bool" where
  "self_loop s \<longleftrightarrow>
     (\<exists>a e. program_cache_head s = Some a \<and> programs s a = Some e
            \<and> pr_next e = Some a \<and> pr_prev e = Some a)"

definition prog_shape :: "state \<Rightarrow> bool" where
  "prog_shape s \<longleftrightarrow> (\<exists>ps. prog_list s ps \<and> tail_ok s ps) \<or> self_loop s"

text \<open>
  The invariant of the renderer between two calls: both caches are well formed, the
  reference counts are right, \<^verbatim>\<open>current_program\<close> is \<open>NULL\<close> or live, and every
  cached shader is referenced (\<open>zeros s Z\<close>: the unreferenced shaders are among \<open>Z\<close>).
\<close>

definition zeros :: "state \<Rightarrow> addr set \<Rightarrow> bool" where
  "zeros s Z \<longleftrightarrow> (\<forall>a e. shaders s a = Some e \<longrightarrow> references e \<le> 0 \<longrightarrow> a \<in> Z)"

definition cur_ok :: "state \<Rightarrow> bool" where
  "cur_ok s \<longleftrightarrow> (\<forall>p. current_program s = Some p \<longrightarrow> programs s p \<noteq> None)"

definition cache_inv :: "state \<Rightarrow> bool" where
  "cache_inv s \<longleftrightarrow> (\<exists>xs. shader_inv s xs) \<and> abs_ok s \<and> prog_shape s \<and> cur_ok s \<and> zeros s {}"

text \<open>
  \<open>selected G s source b\<close>: the shaders that the shader table \<open>G\<close> gives for the image
  source and the blend mode are cached, and the current program is a program of the
  two.
\<close>

definition selected :: "get_shader \<Rightarrow> state \<Rightarrow> GLES2_ImageSource \<Rightarrow> int \<Rightarrow> bool" where
  "selected G s source b \<longleftrightarrow>
     (\<exists>xs iv jf v f p.
        shader_inv s xs
        \<and> resolve G s GLES2_SHADER_VERTEX_DEFAULT b = Some iv \<and> cached s xs (inst_ptr iv) = Some v
        \<and> resolve G s (fragment_type source) b = Some jf \<and> cached s xs (inst_ptr jf) = Some f
        \<and> current_program s = Some p \<and> pairs (programs s) p = Some (v, f))"


text \<open>
  The states of a renderer with the shader table \<open>G\<close>: the state that
  \<^verbatim>\<open>GLES2_CreateRenderer\<close> returns, and the states that follow by a bind, a window
  event, a selection of a program (whatever it returns), a change of the blend state, a
  texture update, further OpenGL calls of the drawing functions, and by what happens
  outside the renderer (another context is made current, the window is resized).
  The caches and \<^verbatim>\<open>current_program\<close> are touched by \<^verbatim>\<open>GLES2_SelectProgram\<close> and
  \<^verbatim>\<open>GLES2_ActivateRenderer\<close> only.
\<close>

inductive reachable :: "get_shader \<Rightarrow> state \<Rightarrow> bool" for G :: get_shader where
  created: "GLES2_CreateRenderer env wsize cur = Some (Inr s) \<Longrightarrow> reachable G s"
| activated: "reachable G s \<Longrightarrow> reachable G (snd (GLES2_ActivateRenderer s ok))"
| window_event: "reachable G s \<Longrightarrow> reachable G (GLES2_WindowEvent s ev)"
| selected_program:
    "reachable G s \<Longrightarrow> GLES2_SelectProgram G s source b env = Some (r, s') \<Longrightarrow> reachable G s'"
| blend_mode: "reachable G s \<Longrightarrow> reachable G (GLES2_SetBlendMode s b)"
| updated_texture:
    "reachable G s \<Longrightarrow> GLES2_UpdateTexture s texture bpp rect pixels pitch uenv = Some (r, s', texture')
     \<Longrightarrow> reachable G s'"
| drawn: "reachable G s \<Longrightarrow> reachable G (gl s cs)"
| outside: "reachable G s \<Longrightarrow> reachable G (s\<lparr>SDL_CurrentContext := c, window_size := w\<rparr>)"

section \<open>Example inputs\<close>

definition example_env :: create_env where
  "example_env =
     \<lparr>ce_renderer_alloc = True, ce_rdata_alloc = True, ce_context = Some 1,
      ce_make_current_ok = True, ce_binary_formats = [0x890B], ce_hasCompiler = True,
      ce_formats_alloc = True, ce_glerror = False\<rparr>"

text \<open>The state of a renderer just created for a window of 800 by 600 pixels.\<close>

definition example_state :: state where
  "example_state =
     \<lparr>gl_context = Some 1, shader_formats = [0x890B, - 1],
      shader_cache_count = 0, shader_cache_head = None,
      program_cache_count = 0, program_cache_head = None,
      program_cache_tail = None, current_program = None,
      updateSize = False, shaders = Map.empty, programs = Map.empty,
      SDL_CurrentContext = None, window_size = (800, 600),
      gl_calls = [SDL_GL_MakeCurrent (Some 1), GlGetError, GlGetIntegerv,
                  GlGetBooleanv, GlGetIntegerv, GlGetError]\<rparr>"

text \<open>
  That renderer with one vertex shader, one fragment shader and the program of the two
  in its caches, the program being the current one.
\<close>

definition bound_state :: state where
  "bound_state =
     example_state
       \<lparr>shader_cache_count := 2, shader_cache_head := Some 101,
        program_cache_count := 1, program_cache_head := Some 200,
        program_cache_tail := Some 200, current_program := Some 200,
        shaders :=
          [100 \<mapsto> \<lparr>sh_id = 1, sh_type = GLES2_SHADER_VERTEX_DEFAULT, sh_instance = 1,
                   references = 1, sh_prev = Some 101, sh_next = None\<rparr>,
           101 \<mapsto> \<lparr>sh_id = 2, sh_type = GLES2_SHADER_FRAGMENT_SOLID_SRC, sh_instance = 11,
                   references = 1, sh_prev = None, sh_next = Some 100\<rparr>],
        programs :=
          [200 \<mapsto> \<lparr>pr_id = 3, blend_mode = 1, vertex_shader = 100, fragment_shader = 101,
                   uniform_locations = [0, 1, 2, 3, 4] @ replicate 11 0,
                   pr_prev = None, pr_next = None\<rparr>]\<rparr>"

text \<open>
  A shader with two candidate instances, a binary one at address 10 and a source one
  (format \<open>-1\<close>) at address 11, on a platform that supports both formats.
\<close>

definition two_instances :: get_shader where
  "two_instances type blendMode =
     Some \<lparr>instances = [\<lparr>inst_ptr = 10, inst_type = 0x8B31, inst_format = 0x890B\<rparr>,
                        \<lparr>inst_ptr = 11, inst_type = 0x8B31, inst_format = - 1\<rparr>]\<rparr>"

definition example_shader_env :: shader_env where
  "example_shader_env = \<lparr>se_alloc = Some 100, se_id = 1, se_compiled = True, se_glerror = False\<rparr>"

definition example_texture :: SDL_Texture where
  "example_texture =
     \<lparr>tex_w = 2, tex_h = 2,
      driverdata = \<lparr>td_texture = 7, td_texture_type = 0x0DE1, td_pixel_format = 0x1908,
                    td_pixel_type = 0x1401, td_pixel_data = None, td_pitch = 0\<rparr>\<rparr>"

text \<open>
  A shader table with one vertex shader and nine solid fragment shaders (blend modes 1
  to 9), each with a single source instance, and two drivers that run a list of
  \<^verbatim>\<open>GLES2_CacheShader\<close> and of \<^verbatim>\<open>GLES2_CacheProgram\<close> calls, every allocation and
  every driver call succeeding.
\<close>

definition nine_fragments :: get_shader where
  "nine_fragments type blendMode =
     (if type = GLES2_SHADER_VERTEX_DEFAULT
      then Some \<lparr>instances = [\<lparr>inst_ptr = 1, inst_type = 0x8B31, inst_format = - 1\<rparr>]\<rparr>
      else if 1 \<le> blendMode \<and> blendMode \<le> 9
      then Some \<lparr>instances = [\<lparr>inst_ptr = nat (10 + blendMode), inst_type = 0x8B30,
                                inst_format = - 1\<rparr>]\<rparr>
      else None)"

fun cache_shaders :: "state \<Rightarrow> (GLES2_ShaderType \<times> int \<times> addr) list \<Rightarrow> state option" where
  "cache_shaders s [] = Some s"
| "cache_shaders s ((type, blendMode, a) # rest) =
     (case GLES2_CacheShader nine_fragments s type blendMode
             \<lparr>se_alloc = Some a, se_id = 0, se_compiled = True, se_glerror = False\<rparr> of
        Some (Inr entry, s') \<Rightarrow> cache_shaders s' rest
      | _ \<Rightarrow> None)"

fun cache_programs :: "state \<Rightarrow> (addr \<times> addr \<times> addr) list \<Rightarrow> state option" where
  "cache_programs s [] = Some s"
| "cache_programs s ((vertex, fragment, a) # rest) =
     (case GLES2_CacheProgram s vertex fragment 0
             \<lparr>pe_alloc = Some a, pe_id = 0, pe_linked = True, pe_glerror = False, pe_locs = []\<rparr> of
        Some (Inr entry, s') \<Rightarrow> cache_programs s' rest
      | _ \<Rightarrow> None)"

text \<open>
  The vertex shader at address 1 and the fragment shaders \<open>F1 .. F9\<close> at addresses
  11 to 19, cached in a fresh renderer.
\<close>

definition ten_shaders :: "state option" where
  "ten_shaders =
     cache_shaders (example_state\<lparr>gl_calls := []\<rparr>)
       [(GLES2_SHADER_VERTEX_DEFAULT, 0, 1),
        (GLES2_SHADER_FRAGMENT_SOLID_SRC, 1, 11), (GLES2_SHADER_FRAGMENT_SOLID_SRC, 2, 12),
        (GLES2_SHADER_FRAGMENT_SOLID_SRC, 3, 13), (GLES2_SHADER_FRAGMENT_SOLID_SRC, 4, 14),
        (GLES2_SHADER_FRAGMENT_SOLID_SRC, 5, 15), (GLES2_SHADER_FRAGMENT_SOLID_SRC, 6, 16),
        (GLES2_SHADER_FRAGMENT_SOLID_SRC, 7, 17), (GLES2_SHADER_FRAGMENT_SOLID_SRC, 8, 18),
        (GLES2_SHADER_FRAGMENT_SOLID_SRC, 9, 19)]"

text \<open>
  The programs \<open>P1 .. P8\<close> (pairs of the vertex shader with \<open>F1 .. F8\<close>) acquired in
  order at addresses 201 to 208, then \<open>P1\<close> acquired again: a hit on the tail entry.
\<close>

definition eight_programs_then_hit :: "state option" where
  "eight_programs_then_hit =
     Option.bind ten_shaders (\<lambda>s. cache_programs s
       [(1, 11, 201), (1, 12, 202), (1, 13, 203), (1, 14, 204), (1, 15, 205), (1, 16, 206),
        (1, 17, 207), (1, 18, 208), (1, 11, 0)])"

text \<open>Then the ninth pair, \<open>P9\<close>, acquired at address 209.\<close>

definition then_ninth_program :: "state option" where
  "then_ninth_program =
     Option.bind eight_programs_then_hit (\<lambda>s. cache_programs s [(1, 19, 209)])"

text \<open>
  Answers of the allocator and the driver with which a selection succeeds: the vertex
  shader is placed at address 100, the fragment shader at 101 and the program at 200.
  In \<open>no_memory_select_env\<close> the allocation of the vertex shader entry fails.
\<close>

definition example_select_env :: select_env where
  "example_select_env =
     \<lparr>vertex_env = \<lparr>se_alloc = Some 100, se_id = 1, se_compiled = True, se_glerror = False\<rparr>,
      fragment_env = \<lparr>se_alloc = Some 101, se_id = 2, se_compiled = True, se_glerror = False\<rparr>,
      prog_env = \<lparr>pe_alloc = Some 200, pe_id = 3, pe_linked = True, pe_glerror = False,
                  pe_locs = [0, 1, 2, 3, 4]\<rparr>,
      use_glerror = False, proj_glerror = False\<rparr>"





section \<open>Context binding after a resize\<close>

lemma example_state_created:
  "GLES2_CreateRenderer example_env (800, 600) None = Some (Inr example_state)"
  by (simp add: GLES2_CreateRenderer_def example_env_def example_state_def)

text \<open>
  C4, as stated, fails: a renderer whose context is the current one and has a program
  bound loses \<open>current_program\<close> at the bind after a resize event, although its context
  handle is the context that was current before the event; and when the context cannot
  be made current the bind fails and the viewport is not set.
\<close>

theorem C4_counterexample:
  "gl_context (example_state\<lparr>SDL_CurrentContext := Some 1, current_program := Some 5\<rparr>)
     = SDL_CurrentContext (example_state\<lparr>SDL_CurrentContext := Some 1, current_program := Some 5\<rparr>)
   \<and> current_program
       (snd (GLES2_ActivateRenderer
          (GLES2_WindowEvent (example_state\<lparr>SDL_CurrentContext := Some 1, current_program := Some 5\<rparr>)
             SDL_WINDOWEVENT_RESIZED) True)) = None
   \<and> updateSize
       (snd (GLES2_ActivateRenderer
          (GLES2_WindowEvent (example_state\<lparr>SDL_CurrentContext := Some 1, current_program := Some 5\<rparr>)
             SDL_WINDOWEVENT_RESIZED) False)) = True"
  by (simp add: GLES2_ActivateRenderer_def GLES2_WindowEvent_def example_state_def gl_def)

text \<open>
  C4, amended: after a resize event, a bind call that makes the context current (or
  whose context handle is \<open>NULL\<close>) returns 0, issues \<^verbatim>\<open>glViewport(0, 0, w, h)\<close> exactly
  once and clears \<open>updateSize\<close>, so that a further bind changes nothing; and it sets
  \<open>current_program\<close> to \<open>NULL\<close> whenever the renderer's context handle is not \<open>NULL\<close>,
  whichever context was current before the event, since the event clears
  \<^verbatim>\<open>SDL_CurrentContext\<close>.
\<close>

theorem C4_resize_then_bind:
  assumes "make_current_ok \<or> gl_context s = None"
  shows "GLES2_ActivateRenderer (GLES2_WindowEvent s SDL_WINDOWEVENT_RESIZED) make_current_ok =
           (0, s\<lparr>current_program := (if gl_context s = None then current_program s else None),
                 updateSize := False,
                 SDL_CurrentContext := gl_context s,
                 gl_calls := gl_calls s @
                   (if gl_context s = None then [] else [SDL_GL_MakeCurrent (gl_context s)]) @
                   [GlViewport 0 0 (fst (window_size s)) (snd (window_size s))]\<rparr>)
         \<and> GLES2_ActivateRenderer
             (snd (GLES2_ActivateRenderer (GLES2_WindowEvent s SDL_WINDOWEVENT_RESIZED) make_current_ok))
             again =
           (0, snd (GLES2_ActivateRenderer (GLES2_WindowEvent s SDL_WINDOWEVENT_RESIZED) make_current_ok))"
proof (cases "gl_context s")
  case None
  then show ?thesis
    by (simp add: GLES2_ActivateRenderer_def GLES2_WindowEvent_def gl_def)
next
  case (Some c)
  with assms have "make_current_ok" by simp
  with Some show ?thesis
    by (simp add: GLES2_ActivateRenderer_def GLES2_WindowEvent_def gl_def)
qed

theorem C4_resize_then_bind_witness:
  "GLES2_ActivateRenderer
     (GLES2_WindowEvent (example_state\<lparr>SDL_CurrentContext := Some 1, current_program := Some 5\<rparr>)
        SDL_WINDOWEVENT_RESIZED) True =
     (0, example_state\<lparr>SDL_CurrentContext := Some 1, current_program := None,
           gl_calls := gl_calls example_state @ [SDL_GL_MakeCurrent (Some 1), GlViewport 0 0 800 600]\<rparr>)"
  using C4_resize_then_bind [of True "example_state\<lparr>SDL_CurrentContext := Some 1, current_program := Some 5\<rparr>"]
  by (simp add: example_state_def)

section \<open>Blend modes outside the switch\<close>

text \<open>
  C9: for every integer blend mode other than \<^verbatim>\<open>SDL_BLENDMODE_BLEND\<close>,
  \<^verbatim>\<open>SDL_BLENDMODE_ADD\<close> and \<^verbatim>\<open>SDL_BLENDMODE_MOD\<close> (so for
  \<^verbatim>\<open>SDL_BLENDMODE_NONE\<close> and for every unrecognized value),
  \<^verbatim>\<open>GLES2_SetBlendMode\<close> issues \<^verbatim>\<open>glDisable(GL_BLEND)\<close> and nothing else: the
  value is not rejected.
\<close>

theorem C9_other_blend_modes_disable_blending:
  assumes "blendMode \<noteq> SDL_BLENDMODE_BLEND"
    and "blendMode \<noteq> SDL_BLENDMODE_ADD"
    and "blendMode \<noteq> SDL_BLENDMODE_MOD"
  shows "GLES2_SetBlendMode s blendMode = s\<lparr>gl_calls := gl_calls s @ [GlDisable GL_BLEND]\<rparr>"
  using assms by (simp add: GLES2_SetBlendMode_def gl_def)

theorem C9_other_blend_modes_witness:
  "GLES2_SetBlendMode example_state SDL_BLENDMODE_NONE =
     example_state\<lparr>gl_calls := gl_calls example_state @ [GlDisable GL_BLEND]\<rparr>
   \<and> GLES2_SetBlendMode example_state 77 =
     example_state\<lparr>gl_calls := gl_calls example_state @ [GlDisable GL_BLEND]\<rparr>
   \<and> GLES2_SetBlendMode example_state (- 3) =
     example_state\<lparr>gl_calls := gl_calls example_state @ [GlDisable GL_BLEND]\<rparr>"
  using C9_other_blend_modes_disable_blending [of SDL_BLENDMODE_NONE example_state]
    C9_other_blend_modes_disable_blending [of 77 example_state]
    C9_other_blend_modes_disable_blending [of "- 3" example_state]
  by (simp add: SDL_BLENDMODE_NONE_def SDL_BLENDMODE_BLEND_def SDL_BLENDMODE_ADD_def
      SDL_BLENDMODE_MOD_def)

section \<open>The orthographic projection\<close>

lemma round_even_bound: "\<bar>real_of_int (round_even x) - x\<bar> \<le> 1 / 2"
  unfolding round_even_def Let_def by (auto simp add: abs_if) linarith+

lemma bitlen_powi:
  assumes "0 < n"
  shows "2 powi (bitlen n - 1) \<le> real_of_int n" "real_of_int n < 2 powi (bitlen n)"
proof -
  from assms have b: "1 \<le> bitlen n" by (simp add: bitlen_alt_def)
  from bitlen_bounds [OF assms]
  have l: "2 ^ nat (bitlen n - 1) \<le> n" and u: "n < 2 ^ nat (bitlen n)" by simp_all
  from l have "real_of_int (2 ^ nat (bitlen n - 1)) \<le> real_of_int n"
    by (rule of_int_le_iff [THEN iffD2])
  then show "2 powi (bitlen n - 1) \<le> real_of_int n" using b by (simp add: power_int_def)
  from u have "real_of_int n < real_of_int (2 ^ nat (bitlen n))"
    by (rule of_int_less_iff [THEN iffD2])
  then show "real_of_int n < 2 powi (bitlen n)" using b by (simp add: power_int_def)
qed

lemma round_even_floor: "\<lfloor>x\<rfloor> \<le> round_even x" "round_even x \<le> \<lfloor>x\<rfloor> + 1"
  by (simp_all add: round_even_def Let_def)

lemma float_exponent_bounds:
  assumes n: "0 < n" and d: "0 < d"
  shows "2 powi (float_exponent n d) \<le> real_of_int n / real_of_int d"
    and "real_of_int n / real_of_int d < 2 powi (float_exponent n d + 1)"
proof -
  define x where "x = real_of_int n / real_of_int d"
  define k where "k = bitlen n - bitlen d"
  have e: "float_exponent n d = (if 2 powi k \<le> x then k else k - 1)"
    by (simp add: float_exponent_def Let_def k_def x_def)
  have "2 powi (bitlen n - 1) / 2 powi (bitlen d) \<le> x"
    unfolding x_def using bitlen_powi [OF n] bitlen_powi [OF d] d n
    by (intro frac_le) simp_all
  then have lo: "2 powi (k - 1) \<le> x"
    by (simp add: k_def power_int_diff)
  have "x < 2 powi (bitlen n) / 2 powi (bitlen d - 1)"
    unfolding x_def using bitlen_powi [OF n] bitlen_powi [OF d] d n
    by (intro frac_less) simp_all
  then have hi: "x < 2 powi (k + 1)"
    by (simp add: k_def power_int_diff power_int_add)
  from lo show "2 powi (float_exponent n d) \<le> real_of_int n / real_of_int d"
    by (simp add: e x_def [symmetric])
  from hi show "real_of_int n / real_of_int d < 2 powi (float_exponent n d + 1)"
    by (auto simp add: e x_def [symmetric])
qed

text \<open>
  \<open>round32 n d\<close> is a single-precision number, a significand between \<open>2\<^sup>2\<^sup>3\<close> and
  \<open>2\<^sup>2\<^sup>4\<close> times a power of two, and no further from \<open>n / d\<close> than half a unit of its
  last place, which is at most \<open>2\<^sup>-\<^sup>2\<^sup>4\<close> of the quotient.
\<close>

lemma round32_significand:
  assumes n: "0 < n" and d: "0 < d"
  shows "\<exists>m. round32 n d = real_of_int m * 2 powi (float_exponent n d - 23)
             \<and> 2 ^ 23 \<le> m \<and> m \<le> 2 ^ 24
             \<and> \<bar>round32 n d - real_of_int n / real_of_int d\<bar>
                 \<le> 2 powi (float_exponent n d - 23) / 2"
proof -
  define x where "x = real_of_int n / real_of_int d"
  define e where "e = float_exponent n d"
  define y where "y = x * 2 powi (23 - e)"
  note b = float_exponent_bounds [OF n d, folded x_def e_def]
  have r: "round32 n d = real_of_int (round_even y) * 2 powi (e - 23)"
    by (simp add: round32_def Let_def x_def e_def y_def)
  have p: "(0::real) < 2 powi (23 - e)" by simp
  have "2 powi e * 2 powi (23 - e) \<le> y"
    unfolding y_def using b(1) p by (intro mult_right_mono) simp_all
  then have ly: "2 ^ 23 \<le> y" by (simp add: power_int_add [symmetric])
  have "y < 2 powi (e + 1) * 2 powi (23 - e)"
    unfolding y_def using b(2) p by (intro mult_strict_right_mono) simp_all
  then have uy: "y < 2 ^ 24" by (simp add: power_int_add [symmetric])
  from ly have "real_of_int (2 ^ 23) \<le> y" by simp
  then have "2 ^ 23 \<le> \<lfloor>y\<rfloor>" by (simp only: le_floor_iff)
  with round_even_floor(1) [of y] have lm: "2 ^ 23 \<le> round_even y" by linarith
  from uy have "y < real_of_int (2 ^ 24)" by simp
  then have "\<lfloor>y\<rfloor> < 2 ^ 24" by (simp only: floor_less_iff)
  with round_even_floor(2) [of y] have um: "round_even y \<le> 2 ^ 24" by linarith
  have inv: "y * 2 powi (e - 23) = x"
    by (simp add: y_def power_int_diff)
  have "\<bar>round32 n d - x\<bar> = \<bar>real_of_int (round_even y) - y\<bar> * 2 powi (e - 23)"
    unfolding r inv [symmetric] by (simp add: left_diff_distrib [symmetric] abs_mult)
  also have "\<dots> \<le> 1 / 2 * 2 powi (e - 23)"
    by (intro mult_right_mono round_even_bound) simp
  finally have "\<bar>round32 n d - x\<bar> \<le> 2 powi (e - 23) / 2" by simp
  with r lm um show ?thesis unfolding x_def e_def by blast
qed

lemma round32_error:
  assumes n: "0 < n" and d: "0 < d"
  shows "\<bar>round32 n d - real_of_int n / real_of_int d\<bar> \<le> real_of_int n / real_of_int d / 2 ^ 24"
proof -
  from round32_significand [OF n d]
  have "\<bar>round32 n d - real_of_int n / real_of_int d\<bar> \<le> 2 powi (float_exponent n d - 23) / 2"
    by blast
  also have "\<dots> = 2 powi (float_exponent n d) / 2 ^ 24" by (simp add: power_int_diff)
  also have "\<dots> \<le> real_of_int n / real_of_int d / 2 ^ 24"
    using float_exponent_bounds(1) [OF n d] by (simp add: divide_right_mono)
  finally show ?thesis .
qed

lemma GLfloat_of_int_exact: "0 < w \<Longrightarrow> w < 2 ^ 24 \<Longrightarrow> GLfloat_of_int w = w"
  by (simp add: GLfloat_of_int_def bitlen_le_iff_power)

lemma GLfloat_of_int_pos:
  assumes "0 < w"
  shows "0 < GLfloat_of_int w"
proof (cases "bitlen \<bar>w\<bar> \<le> 24")
  case True
  with assms show ?thesis by (simp add: GLfloat_of_int_def)
next
  case False
  define sh where "sh = nat (bitlen w - 24)"
  from False assms have b: "24 < bitlen w" by simp
  from bitlen_bounds [OF assms] have l: "2 ^ nat (bitlen w - 1) \<le> w" by simp
  have "(2::int) ^ sh \<le> 2 ^ nat (bitlen w - 1)"
    using b by (intro power_increasing) (simp_all add: sh_def)
  from this l have "(2::int) ^ sh \<le> w" by (rule order_trans)
  then have "real_of_int (2 ^ sh) \<le> real_of_int w" by (rule of_int_le_iff [THEN iffD2])
  then have r: "2 ^ sh \<le> real_of_int w" by simp
  define y where "y = real_of_int w / 2 ^ sh"
  from r have "1 \<le> y" by (simp add: y_def le_divide_eq)
  with round_even_bound [of y] have "0 < real_of_int (round_even y)" by linarith
  then have "0 < round_even (real_of_int w / 2 ^ sh)" by (simp add: y_def)
  with False assms show ?thesis by (simp add: GLfloat_of_int_def sh_def)
qed

lemma projection_entries:
  assumes "0 < w" and "0 < h"
  shows "projection w h =
           map (map Finite)
             [[round32 2 (GLfloat_of_int w), 0, 0, 0], [0, - round32 2 (GLfloat_of_int h), 0, 0],
              [0, 0, 1, 0], [- 1, 1, 0, 1]]"
  using GLfloat_of_int_pos [OF assms(1)] GLfloat_of_int_pos [OF assms(2)]
  by (simp add: projection_def GLfloat_div_def)

lemma scaled_error:
  assumes "0 < w" and "\<bar>sx - 2 / real_of_int w\<bar> \<le> 2 / real_of_int w / 2 ^ 24"
  shows "\<bar>sx * real_of_int w - 2\<bar> \<le> 1 / 2 ^ 23"
proof -
  from assms(1) have p: "0 < real_of_int w" by simp
  have "sx * real_of_int w - 2 = (sx - 2 / real_of_int w) * real_of_int w"
    using p by (simp add: field_simps)
  then have "\<bar>sx * real_of_int w - 2\<bar> = \<bar>sx - 2 / real_of_int w\<bar> * real_of_int w"
    using p by (simp add: abs_mult)
  also have "\<dots> \<le> 2 / real_of_int w / 2 ^ 24 * real_of_int w"
    using p assms(2) by (intro mult_right_mono) simp_all
  also have "\<dots> = 1 / 2 ^ 23" using p by simp
  finally show ?thesis .
qed

lemma bitlen_values: "bitlen 2 = 2" "bitlen 800 = 10" "bitlen 600 = 10"
  by code_simp+

text \<open>
  C7, as stated, fails: the entries are single-precision numbers, and \<open>2/800\<close> and
  \<open>-2/600\<close> are not. For a window of 800 by 600 pixels the matrix that is uploaded has
  \<open>5368709 / 2\<^sup>3\<^sup>1\<close> at \<open>[0][0]\<close> and \<open>-7158279 / 2\<^sup>3\<^sup>1\<close> at \<open>[1][1]\<close>, and it maps the pixel
  \<open>(800, 600)\<close> to \<open>(67108861 / 67108864, -268435469 / 268435456)\<close>, not to \<open>(1, -1)\<close>.
\<close>

theorem C7_counterexample:
  "GLES2_SetOrthographicProjection bound_state False =
     Some (Inr (),
           gl bound_state
             [GlGetError,
              GlUniformMatrix4fv 0
                (map Finite [5368709 / 2147483648, 0, 0, 0, 0, - 7158279 / 2147483648, 0, 0,
                             0, 0, 1, 0, - 1, 1, 0, 1]),
              GlGetError])
   \<and> (\<exists>m. finite_matrix (projection 800 600) = Some m
          \<and> m ! 0 ! 0 = 5368709 / 2147483648 \<and> m ! 0 ! 0 \<noteq> 2 / 800
          \<and> m ! 1 ! 1 = - 7158279 / 2147483648 \<and> m ! 1 ! 1 \<noteq> - 2 / 600
          \<and> to_ndc m (800, 600) = (67108861 / 67108864, - 268435469 / 268435456)
          \<and> to_ndc m (800, 600) \<noteq> (1, - 1))"
  by (simp add: GLES2_SetOrthographicProjection_def bound_state_def example_state_def
      projection_def GLfloat_div_def GLfloat_of_int_def round32_def float_exponent_def round_even_def
      bitlen_values Let_def power_int_minus finite_matrix_def to_ndc_def gl_def)

text \<open>
  C7, amended: called with a program bound, for a window of \<open>w\<close> by \<open>h\<close> pixels, \<open>w > 0\<close>
  and \<open>h > 0\<close>, \<^verbatim>\<open>GLES2_SetOrthographicProjection\<close> returns, and what it hands to
  \<^verbatim>\<open>glUniformMatrix4fv\<close> is, column by column, the matrix with \<open>sx\<close> at \<open>[0][0]\<close>,
  \<open>sy\<close> at \<open>[1][1]\<close>, 1 at \<open>[2][2]\<close> and \<open>[3][3]\<close>, \<open>-1\<close> at \<open>[3][0]\<close>, 1 at \<open>[3][1]\<close> and 0
  elsewhere, where \<open>sx\<close> and \<open>sy\<close> are the single-precision quotients \<^verbatim>\<open>2.0f / w\<close> and
  \<^verbatim>\<open>-2.0f / h\<close>. This matrix maps the pixel \<open>(0, 0)\<close> to \<open>(-1, 1)\<close> exactly. For \<open>w\<close> and
  \<open>h\<close> below \<open>2\<^sup>2\<^sup>4\<close>, \<open>sx\<close> and \<open>sy\<close> are \<open>2/w\<close> and \<open>-2/h\<close> up to a relative error of
  \<open>2\<^sup>-\<^sup>2\<^sup>4\<close>, and the pixel \<open>(w, h)\<close> is mapped to within \<open>2\<^sup>-\<^sup>2\<^sup>3\<close> of \<open>(1, -1)\<close> in each
  coordinate.
\<close>

theorem C7_orthographic_projection:
  assumes "0 < w" and "0 < h"
    and "window_size s = (w, h)" and "current_program s = Some cp" and "programs s cp = Some ce"
  shows "\<exists>sx sy.
           sx = round32 2 (GLfloat_of_int w) \<and> sy = - round32 2 (GLfloat_of_int h)
         \<and> projection w h =
             map (map Finite) [[sx, 0, 0, 0], [0, sy, 0, 0], [0, 0, 1, 0], [- 1, 1, 0, 1]]
         \<and> GLES2_SetOrthographicProjection s glerror =
             Some (if glerror then Inl ERR_FailedToSetProjection else Inr (),
                   gl s [GlGetError,
                         GlUniformMatrix4fv (uniform_locations ce ! 0)
                           (map Finite [sx, 0, 0, 0, 0, sy, 0, 0, 0, 0, 1, 0, - 1, 1, 0, 1]),
                         GlGetError])
         \<and> to_ndc [[sx, 0, 0, 0], [0, sy, 0, 0], [0, 0, 1, 0], [- 1, 1, 0, 1]] (0, 0) = (- 1, 1)
         \<and> (w < 2 ^ 24 \<longrightarrow>
              \<bar>sx - 2 / real_of_int w\<bar> \<le> 2 / real_of_int w / 2 ^ 24
              \<and> \<bar>fst (to_ndc [[sx, 0, 0, 0], [0, sy, 0, 0], [0, 0, 1, 0], [- 1, 1, 0, 1]]
                         (real_of_int w, real_of_int h)) - 1\<bar> \<le> 1 / 2 ^ 23)
         \<and> (h < 2 ^ 24 \<longrightarrow>
              \<bar>sy - - 2 / real_of_int h\<bar> \<le> 2 / real_of_int h / 2 ^ 24
              \<and> \<bar>snd (to_ndc [[sx, 0, 0, 0], [0, sy, 0, 0], [0, 0, 1, 0], [- 1, 1, 0, 1]]
                         (real_of_int w, real_of_int h)) - - 1\<bar> \<le> 1 / 2 ^ 23)"
proof -
  define sx where "sx = round32 2 (GLfloat_of_int w)"
  define sy where "sy = - round32 2 (GLfloat_of_int h)"
  note pe = projection_entries [OF assms(1,2), folded sx_def sy_def]
  have up: "GLES2_SetOrthographicProjection s glerror =
             Some (if glerror then Inl ERR_FailedToSetProjection else Inr (),
                   gl s [GlGetError,
                         GlUniformMatrix4fv (uniform_locations ce ! 0)
                           (map Finite [sx, 0, 0, 0, 0, sy, 0, 0, 0, 0, 1, 0, - 1, 1, 0, 1]),
                         GlGetError])"
    by (simp add: GLES2_SetOrthographicProjection_def assms(3-5) pe)
  have o: "to_ndc [[sx, 0, 0, 0], [0, sy, 0, 0], [0, 0, 1, 0], [- 1, 1, 0, 1]] (0, 0) = (- 1, 1)"
    by (simp add: to_ndc_def)
  have bx: "\<bar>sx - 2 / real_of_int w\<bar> \<le> 2 / real_of_int w / 2 ^ 24
            \<and> \<bar>fst (to_ndc [[sx, 0, 0, 0], [0, sy, 0, 0], [0, 0, 1, 0], [- 1, 1, 0, 1]]
                       (real_of_int w, real_of_int h)) - 1\<bar> \<le> 1 / 2 ^ 23" if "w < 2 ^ 24"
  proof -
    from round32_error [of 2 w] assms(1) that
    have e: "\<bar>sx - 2 / real_of_int w\<bar> \<le> 2 / real_of_int w / 2 ^ 24"
      by (simp add: sx_def GLfloat_of_int_exact)
    from scaled_error [OF assms(1) e] e show ?thesis by (simp add: to_ndc_def)
  qed
  have by': "\<bar>sy - - 2 / real_of_int h\<bar> \<le> 2 / real_of_int h / 2 ^ 24
            \<and> \<bar>snd (to_ndc [[sx, 0, 0, 0], [0, sy, 0, 0], [0, 0, 1, 0], [- 1, 1, 0, 1]]
                       (real_of_int w, real_of_int h)) - - 1\<bar> \<le> 1 / 2 ^ 23" if "h < 2 ^ 24"
  proof -
    from round32_error [of 2 h] assms(2) that
    have e: "\<bar>- sy - 2 / real_of_int h\<bar> \<le> 2 / real_of_int h / 2 ^ 24"
      by (simp add: sy_def GLfloat_of_int_exact)
    have "\<bar>sy * real_of_int h + 2\<bar> = \<bar>- sy * real_of_int h - 2\<bar>"
      by (simp add: abs_minus_commute add.commute)
    with scaled_error [OF assms(2) e] have s: "\<bar>sy * real_of_int h + 2\<bar> \<le> 1 / 2 ^ 23"
      by simp
    have "\<bar>sy - - 2 / real_of_int h\<bar> = \<bar>- sy - 2 / real_of_int h\<bar>"
      by (simp add: abs_minus_commute add.commute)
    with e have t: "\<bar>sy - - 2 / real_of_int h\<bar> \<le> 2 / real_of_int h / 2 ^ 24" by simp
    have eq: "snd (to_ndc [[sx, 0, 0, 0], [0, sy, 0, 0], [0, 0, 1, 0], [- 1, 1, 0, 1]]
                 (real_of_int w, real_of_int h)) - - 1 = sy * real_of_int h + 2"
      by (simp add: to_ndc_def)
    show ?thesis unfolding eq using t s by (intro conjI)
  qed
  from pe up o bx by' show ?thesis unfolding sx_def sy_def by blast
qed

theorem C7_orthographic_projection_witness:
  "GLES2_SetOrthographicProjection bound_state True =
     Some (Inl ERR_FailedToSetProjection,
           gl bound_state
             [GlGetError,
              GlUniformMatrix4fv 0
                (map Finite [5368709 / 2147483648, 0, 0, 0, 0, - 7158279 / 2147483648, 0, 0,
                             0, 0, 1, 0, - 1, 1, 0, 1]),
              GlGetError])
   \<and> \<bar>5368709 / 2147483648 - 2 / real_of_int 800\<bar> \<le> 2 / real_of_int 800 / 2 ^ 24
   \<and> \<bar>- 7158279 / 2147483648 - - 2 / real_of_int 600\<bar> \<le> 2 / real_of_int 600 / 2 ^ 24"
proof -
  have v: "round32 2 (GLfloat_of_int 800) = 5368709 / 2147483648"
    "round32 2 (GLfloat_of_int 600) = 7158279 / 2147483648"
    by (simp_all add: GLfloat_of_int_def round32_def float_exponent_def round_even_def bitlen_values Let_def
        power_int_minus)
  have h: "(0::int) < 800" "(0::int) < 600" "window_size bound_state = (800, 600)"
    "current_program bound_state = Some 200"
    "programs bound_state 200 =
       Some \<lparr>pr_id = 3, blend_mode = 1, vertex_shader = 100, fragment_shader = 101,
             uniform_locations = [0, 1, 2, 3, 4] @ replicate 11 0,
             pr_prev = None, pr_next = None\<rparr>"
    by (simp_all add: bound_state_def example_state_def)
  from C7_orthographic_projection [OF h, of True] obtain sx sy where
    sx: "sx = round32 2 (GLfloat_of_int 800)" and sy: "sy = - round32 2 (GLfloat_of_int 600)"
    and up: "GLES2_SetOrthographicProjection bound_state True =
             Some (if True then Inl ERR_FailedToSetProjection else Inr (),
                   gl bound_state
                     [GlGetError,
                      GlUniformMatrix4fv
                        (uniform_locations
                           \<lparr>pr_id = 3, blend_mode = 1, vertex_shader = 100, fragment_shader = 101,
                             uniform_locations = [0, 1, 2, 3, 4] @ replicate 11 0,
                             pr_prev = None, pr_next = None\<rparr> ! 0)
                        (map Finite [sx, 0, 0, 0, 0, sy, 0, 0, 0, 0, 1, 0, - 1, 1, 0, 1]),
                      GlGetError])"
    and ex: "800 < (2::int) ^ 24 \<longrightarrow>
               \<bar>sx - 2 / real_of_int 800\<bar> \<le> 2 / real_of_int 800 / 2 ^ 24
               \<and> \<bar>fst (to_ndc [[sx, 0, 0, 0], [0, sy, 0, 0], [0, 0, 1, 0], [- 1, 1, 0, 1]]
                          (real_of_int 800, real_of_int 600)) - 1\<bar> \<le> 1 / 2 ^ 23"
    and ey: "600 < (2::int) ^ 24 \<longrightarrow>
               \<bar>sy - - 2 / real_of_int 600\<bar> \<le> 2 / real_of_int 600 / 2 ^ 24
               \<and> \<bar>snd (to_ndc [[sx, 0, 0, 0], [0, sy, 0, 0], [0, 0, 1, 0], [- 1, 1, 0, 1]]
                          (real_of_int 800, real_of_int 600)) - - 1\<bar> \<le> 1 / 2 ^ 23"
    by (elim exE conjE) (rule that; assumption)
  from sx sy have vx: "sx = 5368709 / 2147483648" and vy: "sy = - 7158279 / 2147483648"
    by (simp_all add: v)
  from up have "GLES2_SetOrthographicProjection bound_state True =
     Some (Inl ERR_FailedToSetProjection,
           gl bound_state
             [GlGetError,
              GlUniformMatrix4fv 0
                (map Finite [5368709 / 2147483648, 0, 0, 0, 0, - 7158279 / 2147483648, 0, 0,
                             0, 0, 1, 0, - 1, 1, 0, 1]),
              GlGetError])"
    unfolding vx vy by simp
  moreover from ex have "\<bar>5368709 / 2147483648 - 2 / real_of_int 800\<bar> \<le> 2 / real_of_int 800 / 2 ^ 24"
    unfolding vx by simp
  moreover from ey have "\<bar>- 7158279 / 2147483648 - - 2 / real_of_int 600\<bar> \<le> 2 / real_of_int 600 / 2 ^ 24"
    unfolding vy by simp
  ultimately show ?thesis by (intro conjI)
qed

section \<open>Updating an empty rectangle\<close>

text \<open>
  C10, as stated, fails: \<^verbatim>\<open>GLES2_UpdateTexture\<close> binds the renderer before it looks
  at the rectangle, so with a resize pending an update of an empty rectangle issues
  \<^verbatim>\<open>glViewport\<close>.
\<close>

theorem C10_counterexample:
  "rect_w \<lparr>rect_x = 0, rect_y = 0, rect_w = 0, rect_h = 0\<rparr> \<le> 0
   \<and> GLES2_UpdateTexture (example_state\<lparr>SDL_CurrentContext := Some 1, updateSize := True\<rparr>)
       example_texture 4 \<lparr>rect_x = 0, rect_y = 0, rect_w = 0, rect_h = 0\<rparr> [] 0
       \<lparr>ue_make_current_ok = True, ue_blob_alloc = True, ue_glerror = False\<rparr> =
     Some (Inr (),
           example_state\<lparr>SDL_CurrentContext := Some 1, updateSize := False,
             gl_calls := gl_calls example_state @ [GlViewport 0 0 800 600]\<rparr>,
           example_texture)"
  by (simp add: GLES2_UpdateTexture_def GLES2_ActivateRenderer_def example_state_def gl_def)

text \<open>
  C10, amended: for every texture and every rectangle with \<open>w \<le> 0\<close> or \<open>h \<le> 0\<close>,
  \<^verbatim>\<open>GLES2_UpdateTexture\<close> returns 0 with the texture (its streaming buffer included)
  unchanged, having done nothing but the bind of \<^verbatim>\<open>GLES2_ActivateRenderer\<close>: no
  texture call is issued, and when the renderer's context is current and no resize is
  pending the state is unchanged and no call is issued at all.
\<close>

theorem C10_empty_rectangle:
  assumes "rect_w rect \<le> 0 \<or> rect_h rect \<le> 0"
  shows "GLES2_UpdateTexture s texture bpp rect pixels pitch env =
           Some (Inr (), snd (GLES2_ActivateRenderer s (ue_make_current_ok env)), texture)
         \<and> (SDL_CurrentContext s = gl_context s \<and> updateSize s = False \<longrightarrow>
              GLES2_UpdateTexture s texture bpp rect pixels pitch env = Some (Inr (), s, texture))"
  using assms by (simp add: GLES2_UpdateTexture_def GLES2_ActivateRenderer_def Let_def)

theorem C10_empty_rectangle_witness:
  "GLES2_UpdateTexture (example_state\<lparr>SDL_CurrentContext := Some 1\<rparr>)
       example_texture 4 \<lparr>rect_x = 1, rect_y = 1, rect_w = 0, rect_h = 5\<rparr> [1, 2, 3] 7
       \<lparr>ue_make_current_ok = True, ue_blob_alloc = True, ue_glerror = False\<rparr> =
     Some (Inr (), example_state\<lparr>SDL_CurrentContext := Some 1\<rparr>, example_texture)"
  using C10_empty_rectangle [of "\<lparr>rect_x = 1, rect_y = 1, rect_w = 0, rect_h = 5\<rparr>"
      "example_state\<lparr>SDL_CurrentContext := Some 1\<rparr>" example_texture 4 "[1, 2, 3]" 7
      "\<lparr>ue_make_current_ok = True, ue_blob_alloc = True, ue_glerror = False\<rparr>"]
  by (simp add: example_state_def GLES2_ActivateRenderer_def)

section \<open>Which shader instance is picked\<close>

text \<open>
  C3 says that the first candidate instance with a supported format is the one loaded.
  With two candidates that both match (a binary instance at index 0, a source instance
  at index 1), \<^verbatim>\<open>GLES2_CacheShader\<close> loads and caches the one at index 1: the
  \<^verbatim>\<open>break\<close> leaves the inner loop only, so a later match replaces an earlier one.
\<close>

theorem C3_last_matching_instance_wins:
  "instance_loop (instances (the (two_instances GLES2_SHADER_VERTEX_DEFAULT 0)))
      (shader_formats example_state) None =
     Some \<lparr>inst_ptr = 11, inst_type = 0x8B31, inst_format = - 1\<rparr>
   \<and> (case GLES2_CacheShader two_instances example_state GLES2_SHADER_VERTEX_DEFAULT 0
              example_shader_env of
         Some (Inr entry, s') \<Rightarrow> map_option sh_instance (shaders s' entry) = Some 11
       | _ \<Rightarrow> False)"
  by (simp add: GLES2_CacheShader_def create_shader_def two_instances_def example_state_def
      example_shader_env_def find_shader.simps gl_def)

section \<open>Allocation failure in renderer creation\<close>

text \<open>
  C8 says that \<^verbatim>\<open>GLES2_CreateRenderer\<close> returns \<open>NULL\<close> with an error when either of
  its first two allocations fails. When the renderer structure is allocated and the
  driver context is not, the function has no result: it stores through the \<open>NULL\<close>
  pointer.
\<close>

theorem C8_driver_data_allocation_unchecked:
  "GLES2_CreateRenderer (example_env\<lparr>ce_rdata_alloc := False\<rparr>) (800, 600) None = None"
  by (simp add: GLES2_CreateRenderer_def example_env_def)


section \<open>Eviction after a hit on the tail entry\<close>

lemmas run_simps =
  GLES2_CacheShader_def create_shader_def GLES2_CacheProgram_def create_program_def
  promote_def evict_tail_def unref_shader_def GLES2_EvictShader_def upd_def gl_def
  find_shader.simps find_program.simps nine_fragments_def example_state_def
  GLES2_MAX_CACHED_PROGRAMS_def uniform_names_def ten_shaders_def
  eight_programs_then_hit_def then_ninth_program_def

text \<open>
  C1 says that an insertion that makes the count exceed 8 evicts exactly the
  least-recently-used entry, also after a hit that promoted the tail entry. After
  \<open>P1 .. P8\<close> and a hit on \<open>P1\<close>, the list is \<open>P1, P8, .., P2\<close>, but the promotion has
  left \<open>program_cache.tail\<close> on \<open>P1\<close>, now the head. The insertion of \<open>P9\<close> then frees
  \<open>P1\<close>, the entry used last, and cuts the list behind \<open>P9\<close>: the least-recently-used
  \<open>P2\<close> is not freed, and \<open>P2 .. P8\<close> are no longer found, while the count says 8.
\<close>

theorem C1_eviction_after_tail_hit:
  "(\<exists>s. eight_programs_then_hit = Some s
      \<and> program_cache_count s = 8
      \<and> program_cache_head s = Some 201
      \<and> program_cache_tail s = Some 201
      \<and> map_option pr_next (programs s 201) = Some (Some 208)
      \<and> map_option pr_next (programs s 202) = Some None)
   \<and> (\<exists>s. then_ninth_program = Some s
      \<and> program_cache_count s = 8
      \<and> program_cache_head s = Some 209
      \<and> program_cache_tail s = Some 209
      \<and> map_option pr_next (programs s 209) = Some None
      \<and> programs s 201 = None
      \<and> programs s 202 \<noteq> None
      \<and> find_program (programs s) (1, 12) (program_cache_head s) = Some None
      \<and> find_program (programs s) (1, 18) (program_cache_head s) = Some None
      \<and> find_program (programs s) (1, 19) (program_cache_head s) = Some (Some 209))"
  by (simp add: run_simps)

section \<open>Reference counts after the list is cut\<close>

text \<open>
  C2 says that in every reachable state the \<open>references\<close> field of a shader cache
  entry is the number of program cache entries that point to it. After the calls
  above the program cache holds the single entry \<open>P9\<close>; the vertex shader, to which
  this one entry points, has 8 references, and the fragment shader \<open>F2\<close>, to which no
  entry of the cache points, has 1 reference and is still in the shader cache.
\<close>

theorem C2_reference_counts_after_cut:
  "\<exists>s. then_ninth_program = Some s
      \<and> program_cache_head s = Some 209
      \<and> map_option pr_next (programs s 209) = Some None
      \<and> map_option vertex_shader (programs s 209) = Some 1
      \<and> map_option fragment_shader (programs s 209) = Some 19
      \<and> map_option references (shaders s 1) = Some 8
      \<and> map_option references (shaders s 12) = Some 1
      \<and> map_option references (shaders s 19) = Some 1
      \<and> find_shader (shaders s) 12 (shader_cache_head s) = Some (Some 12)"
  by (simp add: run_simps)

section \<open>Invariants of the two caches\<close>

text \<open>
  What each function of the two caches does to a well-formed state, up to
  \<^verbatim>\<open>GLES2_SelectProgram\<close>, which keeps the invariant \<open>cache_inv\<close>: it holds in every
  reachable state.
\<close>

subsection \<open>Lists of addresses\<close>

lemma head_ptr_in: "head_ptr xs = Some a \<Longrightarrow> a \<in> set xs"
  by (cases xs) auto

lemma head_ptr_Some_iff: "head_ptr xs = Some a \<longleftrightarrow> (\<exists>ys. xs = a # ys)"
  by (cases xs) auto

lemma head_ptr_None: "head_ptr xs = None \<longleftrightarrow> xs = []"
  by (cases xs) auto

lemma succ_of_notin: "a \<notin> set xs \<Longrightarrow> succ_of xs a = None"
  by (induction xs) auto

lemma pred_of_notin: "a \<notin> set xs \<Longrightarrow> pred_of xs a = None"
  by (induction xs) (auto dest: head_ptr_in)

lemma succ_of_in: "succ_of xs a = Some b \<Longrightarrow> a \<in> set xs \<and> b \<in> set xs"
  by (induction xs) (auto split: if_splits dest: head_ptr_in)

lemma pred_of_in: "pred_of xs a = Some b \<Longrightarrow> a \<in> set xs \<and> b \<in> set xs"
  by (induction xs) (auto split: if_splits dest: head_ptr_in)

lemma pred_of_head: "distinct xs \<Longrightarrow> head_ptr xs = Some a \<Longrightarrow> pred_of xs a = None"
  by (cases xs) (auto simp add: pred_of_notin dest: head_ptr_in)

lemma pred_of_None_head:
  "a \<in> set xs \<Longrightarrow> pred_of xs a = None \<Longrightarrow> head_ptr xs = Some a"
  by (induction xs) (auto split: if_splits)

lemma succ_pred: "distinct xs \<Longrightarrow> succ_of xs a = Some b \<longleftrightarrow> pred_of xs b = Some a"
proof (induction xs)
  case Nil
  then show ?case by simp
next
  case (Cons y ys)
  then show ?case
    by (auto simp add: succ_of_notin pred_of_notin head_ptr_Some_iff split: if_splits
        dest: succ_of_in pred_of_in)
qed

lemma succ_of_neq: "distinct xs \<Longrightarrow> succ_of xs a \<noteq> Some a"
  by (induction xs) (auto simp add: head_ptr_Some_iff)

lemma pred_of_neq: "distinct xs \<Longrightarrow> pred_of xs a \<noteq> Some a"
  using succ_pred succ_of_neq by metis

lemma succ_not_head: "distinct xs \<Longrightarrow> succ_of xs a = Some b \<Longrightarrow> head_ptr xs \<noteq> Some b"
  using pred_of_head succ_pred by fastforce

lemma no_two_cycle: "distinct xs \<Longrightarrow> succ_of xs a = Some b \<Longrightarrow> succ_of xs b \<noteq> Some a"
proof (induction xs)
  case Nil
  then show ?case by simp
next
  case (Cons y ys)
  then show ?case
    by (auto simp add: succ_of_notin head_ptr_Some_iff split: if_splits dest: succ_of_in)
qed

lemma head_ptr_remove1:
  "distinct xs \<Longrightarrow> head_ptr (remove1 a xs) = (if head_ptr xs = Some a then succ_of xs a else head_ptr xs)"
  by (cases xs) auto

lemma succ_of_remove1:
  "distinct xs \<Longrightarrow> x \<noteq> a \<Longrightarrow>
   succ_of (remove1 a xs) x = (if succ_of xs x = Some a then succ_of xs a else succ_of xs x)"
proof (induction xs)
  case Nil
  then show ?case by simp
next
  case (Cons y ys)
  then show ?case
    by (auto simp add: succ_of_notin head_ptr_remove1 head_ptr_Some_iff dest: succ_of_in)
qed

lemma pred_of_remove1:
  "distinct xs \<Longrightarrow> x \<noteq> a \<Longrightarrow>
   pred_of (remove1 a xs) x = (if pred_of xs x = Some a then pred_of xs a else pred_of xs x)"
proof (induction xs)
  case Nil
  then show ?case by simp
next
  case (Cons y ys)
  then show ?case
    by (auto simp add: pred_of_notin head_ptr_remove1 succ_of_notin head_ptr_Some_iff
        dest: pred_of_in succ_of_in split: if_splits)
qed

subsection \<open>Unlinking a shader cache entry\<close>

lemma linkedD:
  "linked prv nxt h p xs \<Longrightarrow> a \<in> set xs \<Longrightarrow>
     \<exists>e. h a = Some e \<and> prv e = pred_of xs a \<and> nxt e = succ_of xs a"
  by (auto simp add: linked_def)

lemma sh_core_simps [simp]:
  "sh_core (e\<lparr>sh_prev := p\<rparr>) = sh_core e"
  "sh_core (e\<lparr>sh_next := n\<rparr>) = sh_core e"
  by (simp_all add: sh_core_def)

text \<open>
  \<^verbatim>\<open>GLES2_EvictShader\<close> on an entry of a well-formed list, in closed form.
\<close>

lemma EvictShader_eq:
  assumes L: "linked sh_prev sh_next (shaders s) (shader_cache_head s) xs" and a: "a \<in> set xs"
  shows "GLES2_EvictShader s a =
           Some ((gl s [GlDeleteShader (sh_id (the (shaders s a)))])
                   \<lparr>shaders := unlinked (shaders s) xs a,
                    shader_cache_head := head_ptr (remove1 a xs),
                    shader_cache_count := shader_cache_count s - 1\<rparr>)"
proof -
  from L have d: "distinct xs" and hd: "shader_cache_head s = head_ptr xs"
    by (simp_all add: linked_def)
  from linkedD [OF L a] obtain e where e: "shaders s a = Some e"
    "sh_prev e = pred_of xs a" "sh_next e = succ_of xs a" by blast
  have na: "succ_of xs a \<noteq> Some a" "pred_of xs a \<noteq> Some a"
    using d succ_of_neq pred_of_neq by auto
  have live_n: "\<And>n. succ_of xs a = Some n \<Longrightarrow> \<exists>ne. shaders s n = Some ne"
    using linkedD [OF L] succ_of_in by blast
  have live_p: "\<And>p. pred_of xs a = Some p \<Longrightarrow> \<exists>pe. shaders s p = Some pe"
    using linkedD [OF L] pred_of_in by blast
  have pn: "\<And>n. succ_of xs a = Some n \<Longrightarrow> pred_of xs a \<noteq> Some n"
    using d no_two_cycle succ_pred by metis
  have hdeq: "(if shader_cache_head s = Some a then succ_of xs a else shader_cache_head s)
       = head_ptr (remove1 a xs)"
    using d hd by (simp add: head_ptr_remove1)
  show ?thesis
  proof (cases "succ_of xs a")
    case None
    note sn = None
    show ?thesis
    proof (cases "pred_of xs a")
      case None
      have "unlinked (shaders s) xs a = (shaders s)(a := None)"
        by (rule ext) (simp add: unlinked_def sn None)
      then show ?thesis unfolding hdeq [symmetric] using e sn None
        by (simp add: GLES2_EvictShader_def gl_def)
    next
      case (Some p)
      from live_p [OF Some] obtain pe where pe: "shaders s p = Some pe" by blast
      have "p \<noteq> a" using na Some by auto
      have "unlinked (shaders s) xs a = ((shaders s)(p \<mapsto> pe\<lparr>sh_next := None\<rparr>))(a := None)"
        by (rule ext) (auto simp add: unlinked_def sn Some pe)
      then show ?thesis unfolding hdeq [symmetric] using e sn Some pe \<open>p \<noteq> a\<close>
        by (simp add: GLES2_EvictShader_def gl_def upd_def)
    qed
  next
    case (Some n)
    note sn = Some
    from live_n [OF Some] obtain ne where ne: "shaders s n = Some ne" by blast
    have "n \<noteq> a" using na Some by auto
    show ?thesis
    proof (cases "pred_of xs a")
      case None
      have "unlinked (shaders s) xs a = ((shaders s)(n \<mapsto> ne\<lparr>sh_prev := None\<rparr>))(a := None)"
        by (rule ext) (auto simp add: unlinked_def sn None ne)
      then show ?thesis unfolding hdeq [symmetric] using e sn None ne \<open>n \<noteq> a\<close>
        by (simp add: GLES2_EvictShader_def gl_def upd_def)
    next
      case (Some p)
      from live_p [OF Some] obtain pe where pe: "shaders s p = Some pe" by blast
      have "p \<noteq> a" using na Some by auto
      have "p \<noteq> n" using pn [OF sn] Some by auto
      have "unlinked (shaders s) xs a =
              ((shaders s)(n \<mapsto> ne\<lparr>sh_prev := Some p\<rparr>, p \<mapsto> pe\<lparr>sh_next := Some n\<rparr>))(a := None)"
        using \<open>p \<noteq> n\<close> by (intro ext) (auto simp add: unlinked_def sn Some pe ne)
      then show ?thesis unfolding hdeq [symmetric] using e sn Some pe ne \<open>n \<noteq> a\<close> \<open>p \<noteq> a\<close> \<open>p \<noteq> n\<close>
        by (simp add: GLES2_EvictShader_def gl_def upd_def)
    qed
  qed
qed

lemma unlinked_linked:
  assumes L: "linked sh_prev sh_next h p xs" and a: "a \<in> set xs"
  shows "linked sh_prev sh_next (unlinked h xs a) (head_ptr (remove1 a xs)) (remove1 a xs)"
proof -
  from L have d: "distinct xs" by (simp add: linked_def)
  have "\<exists>e. unlinked h xs a x = Some e \<and> sh_prev e = pred_of (remove1 a xs) x
           \<and> sh_next e = succ_of (remove1 a xs) x"
    if x: "x \<in> set (remove1 a xs)" for x
  proof -
    from x d have xs: "x \<in> set xs" and xa: "x \<noteq> a" by auto
    from linkedD [OF L xs] obtain e where e: "h x = Some e"
      "sh_prev e = pred_of xs x" "sh_next e = succ_of xs x" by blast
    have 1: "succ_of xs a = Some x \<longleftrightarrow> pred_of xs x = Some a" using d succ_pred by simp
    have 2: "pred_of xs a = Some x \<longleftrightarrow> succ_of xs x = Some a" using d succ_pred by simp
    have 3: "succ_of xs a = Some x \<Longrightarrow> succ_of xs x \<noteq> Some a" using d no_two_cycle by simp
    show ?thesis using e xa 1 2 3
      by (auto simp add: unlinked_def succ_of_remove1 [OF d xa] pred_of_remove1 [OF d xa])
  qed
  then show ?thesis using d by (simp add: linked_def)
qed

lemma unlinked_other:
  "x \<noteq> a \<Longrightarrow> map_option sh_core (unlinked h xs a x) = map_option sh_core (h x)"
  by (cases "h x") (simp_all add: unlinked_def)

lemma unlinked_self [simp]: "unlinked h xs a a = None"
  by (simp add: unlinked_def)

subsection \<open>The scan of the shader cache\<close>

lemma succ_of_append:
  "distinct (bs @ c # cs) \<Longrightarrow> succ_of (bs @ c # cs) c = head_ptr cs"
  by (induction bs) auto

lemma find_shader_suffix:
  assumes L: "linked sh_prev sh_next h p (bs @ cs)"
  shows "find_shader h i (head_ptr cs) = Some (List.find (\<lambda>x. inst_of (cores h) x = Some i) cs)"
  using L
proof (induction cs arbitrary: bs)
  case Nil
  then show ?case by (simp add: find_shader.simps)
next
  case (Cons c cs)
  from Cons.prems have d: "distinct (bs @ c # cs)" by (simp add: linked_def)
  from linkedD [OF Cons.prems, of c] obtain e where e: "h c = Some e"
    "sh_next e = succ_of (bs @ c # cs) c" by auto
  with d have nx: "sh_next e = head_ptr cs" by (simp add: succ_of_append)
  from Cons.prems have "linked sh_prev sh_next h p ((bs @ [c]) @ cs)" by simp
  from Cons.IH [OF this]
  have IH: "find_shader h i (head_ptr cs) = Some (List.find (\<lambda>x. inst_of (cores h) x = Some i) cs)" .
  have c: "inst_of (cores h) c = Some (sh_instance e)"
    by (simp add: inst_of_def cores_def sh_core_def e(1))
  show ?case
    by (subst find_shader.simps) (simp add: e(1) nx IH c)
qed

lemma find_shader_linked:
  "linked sh_prev sh_next h p xs \<Longrightarrow>
   find_shader h i p = Some (List.find (\<lambda>x. inst_of (cores h) x = Some i) xs)"
  using find_shader_suffix [of h p "[]" xs i] by (simp add: linked_def)

text \<open>The insertion of a fresh entry at the head of a list.\<close>

lemma linked_insert_shader:
  assumes L: "linked sh_prev sh_next h p xs" and n: "h n = None"
    and e0: "sh_prev e0 = None" "sh_next e0 = p"
  shows "linked sh_prev sh_next
           (\<lambda>x. if x = n then Some e0
                else if p = Some x then map_option (\<lambda>e. e\<lparr>sh_prev := Some n\<rparr>) (h x)
                else h x)
           (Some n) (n # xs)"
proof -
  from L have d: "distinct xs" and p: "p = head_ptr xs" by (simp_all add: linked_def)
  have nx: "n \<notin> set xs" using linkedD [OF L] n by fastforce
  show ?thesis
    unfolding linked_def
  proof (intro conjI ballI)
    show "distinct (n # xs)" using d nx by simp
    show "Some n = head_ptr (n # xs)" by simp
    fix a assume a: "a \<in> set (n # xs)"
    show "\<exists>e. (if a = n then Some e0
                else if p = Some a then map_option (\<lambda>e. e\<lparr>sh_prev := Some n\<rparr>) (h a)
                else h a) = Some e \<and> sh_prev e = pred_of (n # xs) a \<and> sh_next e = succ_of (n # xs) a"
    proof (cases "a = n")
      case True
      then show ?thesis using e0 p nx by (auto simp add: pred_of_notin dest: head_ptr_in)
    next
      case False
      with a have ax: "a \<in> set xs" by simp
      from linkedD [OF L ax] obtain e where "h a = Some e" "sh_prev e = pred_of xs a"
        "sh_next e = succ_of xs a" by blast
      then show ?thesis using False p d by (auto simp add: pred_of_head)
    qed
  qed
qed

subsection \<open>Acquiring a shader\<close>

lemma frame_shD:
  assumes "frame_sh s s'"
  shows "programs s' = programs s" "program_cache_head s' = program_cache_head s"
    "program_cache_tail s' = program_cache_tail s" "program_cache_count s' = program_cache_count s"
    "current_program s' = current_program s" "shader_formats s' = shader_formats s"
    "gl_context s' = gl_context s" "SDL_CurrentContext s' = SDL_CurrentContext s"
    "updateSize s' = updateSize s" "window_size s' = window_size s"
proof -
  from assms have eq: "s' = s\<lparr>shaders := shaders s', shader_cache_head := shader_cache_head s',
            shader_cache_count := shader_cache_count s', gl_calls := gl_calls s'\<rparr>"
    by (simp add: frame_sh_def)
  show "programs s' = programs s" by (subst eq) simp
  show "program_cache_head s' = program_cache_head s" by (subst eq) simp
  show "program_cache_tail s' = program_cache_tail s" by (subst eq) simp
  show "program_cache_count s' = program_cache_count s" by (subst eq) simp
  show "current_program s' = current_program s" by (subst eq) simp
  show "shader_formats s' = shader_formats s" by (subst eq) simp
  show "gl_context s' = gl_context s" by (subst eq) simp
  show "SDL_CurrentContext s' = SDL_CurrentContext s" by (subst eq) simp
  show "updateSize s' = updateSize s" by (subst eq) simp
  show "window_size s' = window_size s" by (subst eq) simp
qed

lemma frame_sh_refl [simp]: "frame_sh s s"
  by (simp add: frame_sh_def)

lemma frame_sh_trans: "frame_sh s s1 \<Longrightarrow> frame_sh s1 s2 \<Longrightarrow> frame_sh s s2"
proof -
  assume a: "frame_sh s s1" and b: "frame_sh s1 s2"
  note A = frame_shD [OF a] and B = frame_shD [OF b]
  show ?thesis
    unfolding frame_sh_def
    by (rule state.equality) (simp_all add: A B)
qed

lemma frame_sh_upd [simp]:
  "frame_sh s (s\<lparr>shaders := h\<rparr>)"
  "frame_sh s (gl s cs)"
  "frame_sh s ((gl s cs)\<lparr>shaders := h, shader_cache_head := p, shader_cache_count := c\<rparr>)"
  by (simp_all add: frame_sh_def gl_def)

lemma shader_inv_find:
  "shader_inv s xs \<Longrightarrow> find_shader (shaders s) i (shader_cache_head s) = Some (cached s xs i)"
  by (simp add: shader_inv_def cached_def find_shader_linked)


lemma create_shader_effect:
  assumes I: "shader_inv s xs" and r: "create_shader s t inst env = Some (r, s')"
  shows "frame_sh s s' \<and>
         (case r of
            Inl err \<Rightarrow> shaders s' = shaders s \<and> shader_cache_head s' = shader_cache_head s
                         \<and> shader_cache_count s' = shader_cache_count s
          | Inr a \<Rightarrow> shaders s a = None \<and> shader_inv s' (a # xs)
                       \<and> cores (shaders s') = (cores (shaders s))(a \<mapsto> (se_id env, t, inst_ptr inst, 0))
                       \<and> shader_cache_count s' = shader_cache_count s + 1)"
proof (cases "se_alloc env")
  case None
  with r show ?thesis by (auto simp add: create_shader_def)
next
  case (Some a)
  note al = Some
  from r al have fresh: "shaders s a = None"
    by (auto simp add: create_shader_def split: if_splits)
  from I have L: "linked sh_prev sh_next (shaders s) (shader_cache_head s) xs"
    and dm: "set xs = dom (shaders s)" by (simp_all add: shader_inv_def)
  define e0 where "e0 = \<lparr>sh_id = se_id env, sh_type = t, sh_instance = inst_ptr inst,
                      references = 0, sh_prev = None, sh_next = shader_cache_head s\<rparr>"
  define H where "H = (\<lambda>x. if x = a then Some e0
                else if shader_cache_head s = Some x
                     then map_option (\<lambda>e. e\<lparr>sh_prev := Some a\<rparr>) (shaders s x)
                else shaders s x)"
  have LH: "linked sh_prev sh_next H (Some a) (a # xs)"
    unfolding H_def by (rule linked_insert_shader [OF L fresh]) (simp_all add: e0_def)
  have domH: "set (a # xs) = dom H"
    using dm by (auto simp add: H_def dom_def split: if_splits)
  have coreH: "cores H = (cores (shaders s))(a \<mapsto> (se_id env, t, inst_ptr inst, 0))"
    by (rule ext) (auto simp add: cores_def H_def e0_def sh_core_def map_option_case split: option.splits)
  show ?thesis
  proof (cases "se_glerror env \<or> \<not> (if inst_format inst = - 1 then se_compiled env else True)")
    case True
    with r al fresh show ?thesis
      by (auto simp add: create_shader_def Let_def gl_def frame_sh_def split: if_splits)
  next
    case False
    show ?thesis
    proof (cases "shader_cache_head s")
      case None
      have "H = (shaders s)(a \<mapsto> e0)"
        by (rule ext) (simp add: H_def None)
      with r al fresh False None LH domH coreH show ?thesis
        by (auto simp add: create_shader_def Let_def shader_inv_def e0_def gl_def frame_sh_def
            split: if_splits)
    next
      case (Some hp)
      with L have "hp \<in> set xs" by (simp add: linked_def head_ptr_in)
      with dm obtain he where he: "shaders s hp = Some he" by auto
      with fresh have ne: "hp \<noteq> a" by auto
      have "H = (shaders s)(a \<mapsto> e0, hp \<mapsto> he\<lparr>sh_prev := Some a\<rparr>)"
        using ne by (intro ext) (auto simp add: H_def Some he)
      with r al fresh False Some LH domH coreH he ne show ?thesis
        by (auto simp add: create_shader_def Let_def shader_inv_def e0_def gl_def frame_sh_def
            upd_def split: if_splits)
    qed
  qed
qed

lemma CacheShader_effect:
  assumes I: "shader_inv s xs" and r: "GLES2_CacheShader G s t b env = Some (r, s')"
  shows "frame_sh s s' \<and>
         (case r of
            Inl err \<Rightarrow> shaders s' = shaders s \<and> shader_cache_head s' = shader_cache_head s
                         \<and> shader_cache_count s' = shader_cache_count s
          | Inr a \<Rightarrow>
              (\<exists>inst. resolve G s t b = Some inst \<and>
                 ((s' = s \<and> cached s xs (inst_ptr inst) = Some a) \<or>
                  (cached s xs (inst_ptr inst) = None \<and> shaders s a = None \<and> shader_inv s' (a # xs)
                   \<and> cores (shaders s') = (cores (shaders s))(a \<mapsto> (se_id env, t, inst_ptr inst, 0))
                   \<and> shader_cache_count s' = shader_cache_count s + 1))))"
proof (cases "G t b")
  case None
  with r show ?thesis by (auto simp add: GLES2_CacheShader_def)
next
  case (Some sh)
  note g = Some
  show ?thesis
  proof (cases "instance_loop (instances sh) (shader_formats s) None")
    case None
    with r g show ?thesis by (auto simp add: GLES2_CacheShader_def)
  next
    case (Some inst)
    have rs: "resolve G s t b = Some inst" by (simp add: resolve_def g Some)
    note f = shader_inv_find [OF I, of "inst_ptr inst"]
    show ?thesis
    proof (cases "cached s xs (inst_ptr inst)")
      case None
      with r g Some f have "create_shader s t inst env = Some (r, s')"
        by (simp add: GLES2_CacheShader_def)
      from create_shader_effect [OF I this] None rs show ?thesis
        by (auto split: sum.splits)
    next
      case (Some a)
      with r g \<open>instance_loop (instances sh) (shader_formats s) None = Some inst\<close> f rs
      show ?thesis by (auto simp add: GLES2_CacheShader_def)
    qed
  qed
qed

subsection \<open>The scan of the program cache\<close>

lemma find_program_suffix:
  assumes L: "linked pr_prev pr_next h p (bs @ cs)"
  shows "find_program h key (head_ptr cs) = Some (List.find (\<lambda>x. pairs h x = Some key) cs)"
  using L
proof (induction cs arbitrary: bs)
  case Nil
  then show ?case by (simp add: find_program.simps)
next
  case (Cons c cs)
  from Cons.prems have d: "distinct (bs @ c # cs)" by (simp add: linked_def)
  from linkedD [OF Cons.prems, of c] obtain e where e: "h c = Some e"
    "pr_next e = succ_of (bs @ c # cs) c" by auto
  with d have nx: "pr_next e = head_ptr cs" by (simp add: succ_of_append)
  from Cons.prems have "linked pr_prev pr_next h p ((bs @ [c]) @ cs)" by simp
  from Cons.IH [OF this]
  have IH: "find_program h key (head_ptr cs) = Some (List.find (\<lambda>x. pairs h x = Some key) cs)" .
  have c: "pairs h c = Some key \<longleftrightarrow> vertex_shader e = fst key \<and> fragment_shader e = snd key"
    by (cases key) (simp add: pairs_def e(1))
  show ?case
    by (subst find_program.simps) (simp add: e(1) nx IH c)
qed

lemma find_program_linked:
  "linked pr_prev pr_next h p ps \<Longrightarrow>
   find_program h key p = Some (List.find (\<lambda>x. pairs h x = Some key) ps)"
  using find_program_suffix [of h p "[]" ps key] by (simp add: linked_def)

lemma find_program_self_loop:
  assumes e: "h a = Some e" "pr_next e = Some a"
    and f: "find_program h key (Some a) = Some r"
  shows "r = Some a"
proof -
  have "h = h \<longrightarrow> Some a = Some a \<longrightarrow> r = Some a"
  proof (rule find_program.raw_induct
      [where P = "\<lambda>h' k p r. h' = h \<longrightarrow> p = Some a \<longrightarrow> r = Some a", OF _ f])
    fix fp :: "(addr \<rightharpoonup> GLES2_ProgramCacheEntry) \<Rightarrow> addr \<times> addr \<Rightarrow> addr option \<Rightarrow> addr option option"
      and h' :: "addr \<rightharpoonup> GLES2_ProgramCacheEntry" and key' :: "addr \<times> addr"
      and entry :: "addr option" and y :: "addr option"
    assume IH: "\<And>g k p z. fp g k p = Some z \<Longrightarrow> g = h \<longrightarrow> p = Some a \<longrightarrow> z = Some a"
      and step: "(case entry of None \<Rightarrow> Some None
          | Some a \<Rightarrow>
              (case h' a of None \<Rightarrow> None
               | Some e \<Rightarrow>
                   if vertex_shader e = fst key' \<and> fragment_shader e = snd key' then Some (Some a)
                   else fp h' key' (pr_next e))) = Some y"
    show "h' = h \<longrightarrow> entry = Some a \<longrightarrow> y = Some a"
    proof (intro impI)
      assume "h' = h" "entry = Some a"
      with step e have "(if vertex_shader e = fst key' \<and> fragment_shader e = snd key'
           then Some (Some a) else fp h key' (Some a)) = Some y" by (auto split: if_splits)
      then show "y = Some a" using IH by (auto split: if_splits)
    qed
  qed
  then show ?thesis by simp
qed

subsection \<open>Promoting a program cache entry\<close>

lemma upd_Some: "h a = Some e \<Longrightarrow> upd h a f = Some (h(a \<mapsto> f e))"
  by (simp add: upd_def)

lemma upd_eq_Some: "upd h a f = Some h' \<longleftrightarrow> (\<exists>e. h a = Some e \<and> h' = h(a \<mapsto> f e))"
  by (auto simp add: upd_def split: option.splits)

lemma pairs_promoted [simp]: "pairs (promoted h ps a hp) = pairs h"
  by (rule ext) (simp add: pairs_def promoted_def option.map_comp comp_def)

lemma promoted_linked:
  assumes L: "linked pr_prev pr_next h (Some hp) ps" and a: "a \<in> set ps" and ne: "a \<noteq> hp"
  shows "linked pr_prev pr_next (promoted h ps a hp) (Some a) (a # remove1 a ps)"
proof -
  from L have d: "distinct ps" and hd: "head_ptr ps = Some hp" by (simp_all add: linked_def)
  have hd': "head_ptr (remove1 a ps) = Some hp" using d hd ne by (simp add: head_ptr_remove1)
  have "\<exists>e. promoted h ps a hp x = Some e \<and> pr_prev e = pred_of (a # remove1 a ps) x
           \<and> pr_next e = succ_of (a # remove1 a ps) x"
    if x: "x \<in> set (a # remove1 a ps)" for x
  proof (cases "x = a")
    case True
    from linkedD [OF L a] obtain e where "h a = Some e" by blast
    then show ?thesis using True hd' d ne
      by (auto simp add: promoted_def pred_of_notin)
  next
    case False
    with x d have xs: "x \<in> set ps" by auto
    from linkedD [OF L xs] obtain e where e: "h x = Some e"
      "pr_prev e = pred_of ps x" "pr_next e = succ_of ps x" by blast
    have 1: "succ_of ps a = Some x \<longleftrightarrow> pred_of ps x = Some a" using d succ_pred by simp
    have 2: "pred_of ps a = Some x \<longleftrightarrow> succ_of ps x = Some a" using d succ_pred by simp
    have 3: "succ_of ps a = Some x \<Longrightarrow> succ_of ps x \<noteq> Some a" using d no_two_cycle by simp
    have 4: "pred_of ps hp = None" using d hd by (simp add: pred_of_head)
    show ?thesis using e False 1 2 3 4 hd'
      by (auto simp add: promoted_def succ_of_remove1 [OF d False] pred_of_remove1 [OF d False])
  qed
  then show ?thesis using d by (simp add: linked_def)
qed

lemma promote_not_head:
  assumes L: "linked pr_prev pr_next (programs s) (program_cache_head s) ps"
    and a: "a \<in> set ps" and hd: "program_cache_head s = Some hp" and ne: "a \<noteq> hp"
  shows "promote s a =
           Some (s\<lparr>programs := promoted (programs s) ps a hp, program_cache_head := Some a\<rparr>)"
proof -
  from L have d: "distinct ps" and hdp: "head_ptr ps = Some hp"
    using hd by (simp_all add: linked_def)
  from linkedD [OF L a] obtain e where e: "programs s a = Some e"
    "pr_prev e = pred_of ps a" "pr_next e = succ_of ps a" by blast
  from hdp have hpin: "hp \<in> set ps" by (rule head_ptr_in)
  from linkedD [OF L hpin] obtain he where he: "programs s hp = Some he"
    "pr_prev he = pred_of ps hp" "pr_next he = succ_of ps hp" by blast
  from pred_of_None_head [OF a] hdp ne obtain p where p: "pred_of ps a = Some p"
    by (cases "pred_of ps a") auto
  from pred_of_in [OF p] have pin: "p \<in> set ps" by simp
  from linkedD [OF L pin] obtain pe where pe: "programs s p = Some pe"
    "pr_prev pe = pred_of ps p" "pr_next pe = succ_of ps p" by blast
  have pa: "p \<noteq> a" using p d pred_of_neq by auto
  have hp0: "pred_of ps hp = None" using d hdp by (simp add: pred_of_head)
  have sp: "succ_of ps p = Some a" using d p succ_pred by simp
  show ?thesis
  proof (cases "succ_of ps a")
    case None
    have "promoted (programs s) ps a hp =
           (programs s)(p \<mapsto> pe\<lparr>pr_next := None\<rparr>,
                        a \<mapsto> e\<lparr>pr_prev := None, pr_next := Some hp\<rparr>,
                        hp \<mapsto> (if hp = p then pe\<lparr>pr_next := None\<rparr> else he)\<lparr>pr_prev := Some a\<rparr>)"
      using ne pa hp0 sp e he pe
      by (intro ext) (auto simp add: promoted_def None p option.map_ident split: option.splits)
    then show ?thesis using e he pe None p ne pa hd
      by (auto simp add: promote_def upd_def)
  next
    case (Some n)
    from succ_of_in [OF Some] have nin: "n \<in> set ps" by simp
    from linkedD [OF L nin] obtain ne' where ne': "programs s n = Some ne'"
      "pr_prev ne' = pred_of ps n" "pr_next ne' = succ_of ps n" by blast
    have na: "n \<noteq> a" using Some d succ_of_neq by auto
    have np: "n \<noteq> p" using d no_two_cycle [OF d sp] Some by auto
    have nhp: "n \<noteq> hp" using d Some succ_not_head hdp by blast
    have pn: "pred_of ps n = Some a" using d Some succ_pred by simp
    have "promoted (programs s) ps a hp =
           (programs s)(n \<mapsto> ne'\<lparr>pr_prev := Some p\<rparr>,
                        p \<mapsto> pe\<lparr>pr_next := Some n\<rparr>,
                        a \<mapsto> e\<lparr>pr_prev := None, pr_next := Some hp\<rparr>,
                        hp \<mapsto> (if hp = p then pe\<lparr>pr_next := Some n\<rparr> else he)\<lparr>pr_prev := Some a\<rparr>)"
      using ne pa hp0 sp e he pe ne' na np nhp pn
      by (intro ext) (auto simp add: promoted_def Some p option.map_ident split: option.splits)
    then show ?thesis using e he pe ne' Some p ne pa hd na np nhp
      by (auto simp add: promote_def upd_def)
  qed
qed

subsection \<open>Counting references\<close>

lemma inc_apply:
  "inc C a x =
     (case C x of None \<Rightarrow> None
      | Some (i, t, n, r) \<Rightarrow> Some (i, t, n, r + (if x = a then 1 else 0)))"
  by (auto simp add: inc_def split: option.splits)

lemma dec_apply:
  "dec C a x =
     (case C x of None \<Rightarrow> None
      | Some (i, t, n, r) \<Rightarrow>
          if x = a \<and> r - 1 \<le> 0 then None else Some (i, t, n, r - (if x = a then 1 else 0)))"
  by (auto simp add: dec_def split: option.splits)

lemma finite_vs: "finite (dom M) \<Longrightarrow> finite {p. \<exists>f. M p = Some (a, f)}"
  by (rule finite_subset [of _ "dom M"]) auto

lemma finite_fs: "finite (dom M) \<Longrightarrow> finite {p. \<exists>v. M p = Some (v, a)}"
  by (rule finite_subset [of _ "dom M"]) auto

lemma refcount_insert:
  assumes fin: "finite (dom M)" and n: "M n = None"
  shows "refcount (M(n \<mapsto> (v, f))) a =
           refcount M a + (if a = v then 1 else 0) + (if a = f then 1 else 0)"
proof -
  have 1: "{p. \<exists>f'. (M(n \<mapsto> (v, f))) p = Some (a, f')} =
           (if a = v then insert n {p. \<exists>f'. M p = Some (a, f')} else {p. \<exists>f'. M p = Some (a, f')})"
    using n by auto
  have 2: "{p. \<exists>v'. (M(n \<mapsto> (v, f))) p = Some (v', a)} =
           (if a = f then insert n {p. \<exists>v'. M p = Some (v', a)} else {p. \<exists>v'. M p = Some (v', a)})"
    using n by auto
  have 3: "\<And>b. n \<notin> {p. \<exists>f'. M p = Some (b, f')}" "\<And>b. n \<notin> {p. \<exists>v'. M p = Some (v', b)}"
    using n by auto
  have c1: "\<And>b. card (insert n {p. \<exists>f'. M p = Some (b, f')}) = Suc (card {p. \<exists>f'. M p = Some (b, f')})"
    by (rule card_insert_disjoint [OF finite_vs [OF fin] 3(1)])
  have c2: "\<And>b. card (insert n {p. \<exists>v'. M p = Some (v', b)}) = Suc (card {p. \<exists>v'. M p = Some (v', b)})"
    by (rule card_insert_disjoint [OF finite_fs [OF fin] 3(2)])
  show ?thesis
    unfolding refcount_def 1 2 by (simp add: c1 c2)
qed

lemma refcount_delete:
  assumes fin: "finite (dom M)" and t: "M t = Some (v, f)"
  shows "refcount M a =
           refcount (M(t := None)) a + (if a = v then 1 else 0) + (if a = f then 1 else 0)"
proof -
  have "refcount ((M(t := None))(t \<mapsto> (v, f))) a =
           refcount (M(t := None)) a + (if a = v then 1 else 0) + (if a = f then 1 else 0)"
    by (rule refcount_insert) (use fin in simp_all)
  moreover have "(M(t := None))(t \<mapsto> (v, f)) = M" using t by auto
  ultimately show ?thesis by simp
qed

lemma refcount_zero:
  assumes fin: "finite (dom M)" and z: "refcount M a = 0"
  shows "M p \<noteq> Some (a, f) \<and> M p \<noteq> Some (v, a)"
proof -
  from z finite_vs [OF fin, of a] finite_fs [OF fin, of a]
  have "{p. \<exists>f. M p = Some (a, f)} = {}" "{p. \<exists>v. M p = Some (v, a)} = {}"
    by (simp_all add: refcount_def)
  then show ?thesis by blast
qed

lemma refcount_unreferenced:
  assumes "\<And>p v f. M p = Some (v, f) \<Longrightarrow> v \<noteq> a \<and> f \<noteq> a"
  shows "refcount M a = 0"
proof -
  have "{p. \<exists>f. M p = Some (a, f)} = {}" "{p. \<exists>v. M p = Some (v, a)} = {}"
    using assms by blast+
  then show ?thesis by (simp add: refcount_def)
qed

lemma refs_new_shader:
  assumes R: "refs_ok C M" and V: "live_ok C M" and a: "C a = None"
  shows "refs_ok (C(a \<mapsto> (i, t, n, 0))) M \<and> live_ok (C(a \<mapsto> (i, t, n, 0))) M"
proof -
  have "refcount M a = 0"
    by (rule refcount_unreferenced) (metis V a live_ok_def)
  with R V show ?thesis by (auto simp add: refs_ok_def live_ok_def)
qed

lemma refs_evict_unreferenced:
  assumes R: "refs_ok C M" and V: "live_ok C M" and a: "C a = Some (i, t, n, r)" and r: "r \<le> 0"
  shows "refs_ok (C(a := None)) M \<and> live_ok (C(a := None)) M"
proof -
  from R a have "r = int (refcount M a)" unfolding refs_ok_def by blast
  with r have "refcount M a = 0" by simp
  from refcount_zero [OF _ this] R have "\<And>p v f. M p \<noteq> Some (a, f) \<and> M p \<noteq> Some (v, a)"
    by (simp add: refs_ok_def)
  with R V show ?thesis by (auto simp add: refs_ok_def live_ok_def)
qed

lemma refs_insert_program:
  assumes R: "refs_ok C M" and V: "live_ok C M" and n: "M n = None"
    and v: "C v \<noteq> None" and f: "C f \<noteq> None"
  shows "refs_ok (inc (inc C v) f) (M(n \<mapsto> (v, f))) \<and> live_ok (inc (inc C v) f) (M(n \<mapsto> (v, f)))"
proof -
  from R have fin: "finite (dom M)" by (simp add: refs_ok_def)
  have dom: "\<And>x. inc (inc C v) f x = None \<longleftrightarrow> C x = None"
    by (auto simp add: inc_apply split: option.splits)
  have live: "live_ok (inc (inc C v) f) (M(n \<mapsto> (v, f)))"
    using V v f unfolding live_ok_def dom by auto
  have "r = int (refcount (M(n \<mapsto> (v, f))) a)" if "inc (inc C v) f a = Some (i, t, k, r)" for a i t k r
  proof -
    from that obtain r0 where r0: "C a = Some (i, t, k, r0)"
      "r = r0 + (if a = v then 1 else 0) + (if a = f then 1 else 0)"
      by (cases "C a") (auto simp add: inc_apply)
    with R have "r0 = int (refcount M a)" by (auto simp add: refs_ok_def)
    with r0 show ?thesis by (simp add: refcount_insert [OF fin n])
  qed
  with fin live show ?thesis by (simp add: refs_ok_def)
qed

lemma refs_delete_program:
  assumes R: "refs_ok C M" and V: "live_ok C M" and t: "M t = Some (v, f)"
  shows "refs_ok (dec (dec C v) f) (M(t := None)) \<and> live_ok (dec (dec C v) f) (M(t := None))"
proof -
  from R have fin: "finite (dom M)" by (simp add: refs_ok_def)
  then have fin': "finite (dom (M(t := None)))" by simp
  note rd = refcount_delete [OF fin t]
  from V t obtain iv tv kv rv where cv: "C v = Some (iv, tv, kv, rv)"
    by (fastforce simp add: live_ok_def)
  from V t obtain jf tf kf rf where cf: "C f = Some (jf, tf, kf, rf)"
    by (fastforce simp add: live_ok_def)
  from R cv have rv: "rv = int (refcount M v)" by (auto simp add: refs_ok_def)
  from R cf have rf: "rf = int (refcount M f)" by (auto simp add: refs_ok_def)
  have refs: "r = int (refcount (M(t := None)) a)"
    if "dec (dec C v) f a = Some (i, u, k, r)" for a i u k r
  proof -
    from that obtain r0 where r0: "C a = Some (i, u, k, r0)"
      "r = r0 - (if a = v then 1 else 0) - (if a = f then 1 else 0)"
      by (cases "C a") (auto simp add: dec_apply split: if_splits)
    with R have "r0 = int (refcount M a)" by (auto simp add: refs_ok_def)
    with r0 rd [of a] show ?thesis by auto
  qed
  have gone: "refcount (M(t := None)) a = 0" if "dec (dec C v) f a = None" "C a \<noteq> None" for a
  proof -
    from that obtain i u k r0 where r0: "C a = Some (i, u, k, r0)" by auto
    with R have e: "r0 = int (refcount M a)" by (auto simp add: refs_ok_def)
    from that(1) r0 have "r0 - (if a = v then 1 else 0) - (if a = f then 1 else 0) \<le> 0"
      "a = v \<or> a = f"
      by (auto simp add: dec_apply split: if_splits)
    with e rd [of a] show ?thesis by (auto split: if_splits)
  qed
  have live: "live_ok (dec (dec C v) f) (M(t := None))"
    unfolding live_ok_def
  proof (intro allI impI)
    fix p v' f' assume p: "(M(t := None)) p = Some (v', f')"
    then have "M p = Some (v', f')" by (auto split: if_splits)
    with V have c: "C v' \<noteq> None" "C f' \<noteq> None" by (auto simp add: live_ok_def)
    have "dec (dec C v) f v' \<noteq> None"
    proof
      assume "dec (dec C v) f v' = None"
      from gone [OF this c(1)] refcount_zero [OF fin'] p show False by blast
    qed
    moreover have "dec (dec C v) f f' \<noteq> None"
    proof
      assume "dec (dec C v) f f' = None"
      from gone [OF this c(2)] refcount_zero [OF fin'] p show False by blast
    qed
    ultimately show "dec (dec C v) f v' \<noteq> None \<and> dec (dec C v) f f' \<noteq> None" by simp
  qed
  from refs live fin' show ?thesis by (simp add: refs_ok_def)
qed

subsection \<open>Releasing a shader\<close>

lemma linked_cong:
  assumes "\<And>x. x \<in> set xs \<Longrightarrow>
             map_option (\<lambda>e. (prv e, nxt e)) (h' x) = map_option (\<lambda>e. (prv e, nxt e)) (h x)"
  shows "linked prv nxt h' p xs = linked prv nxt h p xs"
proof -
  have "(\<exists>e. h' a = Some e \<and> prv e = pred_of xs a \<and> nxt e = succ_of xs a) \<longleftrightarrow>
        (\<exists>e. h a = Some e \<and> prv e = pred_of xs a \<and> nxt e = succ_of xs a)"
    if "a \<in> set xs" for a
    using assms [OF that] by (cases "h a"; cases "h' a") auto
  then show ?thesis by (auto simp add: linked_def)
qed

lemma cores_None [simp]: "cores h x = None \<longleftrightarrow> h x = None"
  by (simp add: cores_def)

lemma dom_cores [simp]: "dom (cores h) = dom h"
  by (auto simp add: dom_def)

lemma cores_unlinked: "cores (unlinked h xs a) = (cores h)(a := None)"
  by (rule ext) (simp add: cores_def unlinked_other)

lemma shader_inv_remove:
  assumes I: "shader_inv s xs" and a: "a \<in> set xs"
  shows "\<exists>s'. GLES2_EvictShader s a = Some s' \<and> frame_sh s s'
           \<and> shaders s' = unlinked (shaders s) xs a
           \<and> shader_cache_head s' = head_ptr (remove1 a xs)
           \<and> shader_cache_count s' = shader_cache_count s - 1
           \<and> gl_calls s' = gl_calls s @ [GlDeleteShader (sh_id (the (shaders s a)))]
           \<and> shader_inv s' (remove1 a xs)"
proof -
  from I have L: "linked sh_prev sh_next (shaders s) (shader_cache_head s) xs"
    and dm: "set xs = dom (shaders s)" by (simp_all add: shader_inv_def)
  from L have d: "distinct xs" by (simp add: linked_def)
  have "dom (unlinked (shaders s) xs a) = dom (shaders s) - {a}"
    using dom_cores [of "unlinked (shaders s) xs a"] by (simp add: cores_unlinked)
  then have "set (remove1 a xs) = dom (unlinked (shaders s) xs a)"
    using d dm by simp
  with unlinked_linked [OF L a] show ?thesis
    by (simp add: EvictShader_eq [OF L a] shader_inv_def gl_def frame_sh_def)
qed

lemma filter_notin: "a \<notin> set xs \<Longrightarrow> filter (\<lambda>x. x \<noteq> a) xs = xs"
  by (induction xs) auto

lemma remove1_filter:
  "distinct xs \<Longrightarrow> remove1 a xs = filter (\<lambda>x. x \<noteq> a) xs"
  by (induction xs) (auto simp add: filter_notin)

lemma unref_shader_effect:
  assumes I: "shader_inv s xs" and r: "unref_shader s a = Some s'"
  shows "frame_sh s s' \<and> shaders s a \<noteq> None
         \<and> cores (shaders s') = dec (cores (shaders s)) a
         \<and> shader_inv s' (filter (\<lambda>x. shaders s' x \<noteq> None) xs)"
proof -
  from r obtain e where e: "shaders s a = Some e"
    by (auto simp add: unref_shader_def upd_eq_Some split: Option.bind_splits)
  define h where "h = (shaders s)(a \<mapsto> e\<lparr>references := references e - 1\<rparr>)"
  from I have L: "linked sh_prev sh_next (shaders s) (shader_cache_head s) xs"
    and dm: "set xs = dom (shaders s)" by (simp_all add: shader_inv_def)
  from L have d: "distinct xs" by (simp add: linked_def)
  from dm e have a: "a \<in> set xs" by auto
  have lh: "linked sh_prev sh_next h (shader_cache_head s) xs = linked sh_prev sh_next (shaders s) (shader_cache_head s) xs"
    by (rule linked_cong) (simp add: h_def e)
  have I1: "shader_inv (s\<lparr>shaders := h\<rparr>) xs"
    using L lh dm e by (auto simp add: shader_inv_def h_def)
  have ch: "cores h = (cores (shaders s))(a \<mapsto> (sh_id e, sh_type e, sh_instance e, references e - 1))"
    by (rule ext) (simp add: cores_def h_def sh_core_def)
  have ca: "cores (shaders s) a = Some (sh_id e, sh_type e, sh_instance e, references e)"
    by (simp add: cores_def e sh_core_def)
  show ?thesis
  proof (cases "references e - 1 \<le> 0")
    case True
    with r e have ev: "GLES2_EvictShader (s\<lparr>shaders := h\<rparr>) a = Some s'"
      by (simp add: unref_shader_def upd_def h_def)
    from shader_inv_remove [OF I1 a] ev
    have fr: "frame_sh (s\<lparr>shaders := h\<rparr>) s'" and sh: "shaders s' = unlinked h xs a"
      and I': "shader_inv s' (remove1 a xs)" by auto
    have c: "cores (shaders s') = dec (cores (shaders s)) a"
      using True by (simp add: sh cores_unlinked ch dec_def ca)
    have "\<And>x. x \<in> set xs \<Longrightarrow> shaders s' x \<noteq> None \<longleftrightarrow> x \<noteq> a"
      using dm by (auto simp add: sh unlinked_def h_def)
    then have "filter (\<lambda>x. shaders s' x \<noteq> None) xs = remove1 a xs"
      unfolding remove1_filter [OF d] by (intro filter_cong) auto
    with I' c e frame_sh_trans [OF _ fr, of s] show ?thesis by simp
  next
    case False
    with r e have s': "s' = s\<lparr>shaders := h\<rparr>"
      by (simp add: unref_shader_def upd_def h_def)
    have c: "cores (shaders s') = dec (cores (shaders s)) a"
      using False by (simp add: s' ch dec_def ca)
    have "\<And>x. x \<in> set xs \<Longrightarrow> shaders s' x \<noteq> None"
      using dm by (auto simp add: s' h_def)
    then have "filter (\<lambda>x. shaders s' x \<noteq> None) xs = xs"
      by (simp add: filter_id_conv)
    with I1 c e s' show ?thesis by simp
  qed
qed

subsection \<open>Inserting at the head and cutting a list\<close>

lemma head_ptr_takeWhile:
  "head_ptr xs = Some h \<Longrightarrow> h \<noteq> t \<Longrightarrow> head_ptr (takeWhile (\<lambda>x. x \<noteq> t) xs) = Some h"
  by (cases xs) auto

lemma head_ptr_takeWhile_eq:
  "head_ptr (takeWhile (\<lambda>x. x \<noteq> t) xs) = (if head_ptr xs = Some t then None else head_ptr xs)"
  by (cases xs) auto

lemma notin_takeWhile: "x \<notin> set xs \<Longrightarrow> x \<notin> set (takeWhile P xs)"
  by (auto dest: set_takeWhileD)

lemma pred_of_takeWhile:
  "distinct xs \<Longrightarrow> x \<in> set (takeWhile (\<lambda>x. x \<noteq> t) xs) \<Longrightarrow>
   pred_of (takeWhile (\<lambda>x. x \<noteq> t) xs) x = pred_of xs x"
proof (induction xs)
  case Nil
  then show ?case by simp
next
  case (Cons y ys)
  from Cons.prems have xt: "x \<noteq> t" by (auto dest: set_takeWhileD)
  show ?case
  proof (cases "x \<in> set (takeWhile (\<lambda>x. x \<noteq> t) ys)")
    case True
    with Cons xt show ?thesis by (auto simp add: head_ptr_takeWhile_eq split: if_splits)
  next
    case False
    with Cons.prems have xy: "x = y" "y \<noteq> t" by (auto split: if_splits)
    with Cons.prems have "x \<notin> set ys" by simp
    then have "pred_of ys x = None" "head_ptr ys \<noteq> Some x"
      "pred_of (takeWhile (\<lambda>x. x \<noteq> t) ys) x = None"
      by (auto simp add: pred_of_notin notin_takeWhile dest: head_ptr_in)
    with xy show ?thesis by (simp add: head_ptr_takeWhile_eq)
  qed
qed

lemma succ_of_takeWhile:
  "distinct xs \<Longrightarrow> x \<in> set (takeWhile (\<lambda>x. x \<noteq> t) xs) \<Longrightarrow>
   succ_of (takeWhile (\<lambda>x. x \<noteq> t) xs) x = (if succ_of xs x = Some t then None else succ_of xs x)"
proof (induction xs)
  case Nil
  then show ?case by simp
next
  case (Cons y ys)
  from Cons.prems have yt: "y \<noteq> t" by (auto split: if_splits)
  show ?case
  proof (cases "x = y")
    case True
    with yt show ?thesis by (simp add: head_ptr_takeWhile_eq)
  next
    case False
    with Cons.prems yt have "x \<in> set (takeWhile (\<lambda>x. x \<noteq> t) ys)" by simp
    with Cons False yt show ?thesis by simp
  qed
qed

lemma pred_in_takeWhile:
  "distinct xs \<Longrightarrow> t \<in> set xs \<Longrightarrow> head_ptr xs \<noteq> Some t \<Longrightarrow>
   \<exists>y. pred_of xs t = Some y \<and> y \<in> set (takeWhile (\<lambda>x. x \<noteq> t) xs)"
proof (induction xs)
  case Nil
  then show ?case by simp
next
  case (Cons y ys)
  from Cons.prems have yt: "y \<noteq> t" and tys: "t \<in> set ys" by auto
  show ?case
  proof (cases "head_ptr ys = Some t")
    case True
    with yt show ?thesis by simp
  next
    case False
    from Cons.IH [OF _ tys False] Cons.prems obtain z where
      "pred_of ys t = Some z" "z \<in> set (takeWhile (\<lambda>x. x \<noteq> t) ys)" by auto
    with False yt show ?thesis by simp
  qed
qed

lemma linked_insert:
  assumes L: "linked prv nxt h p xs" and n: "h n = None"
    and e0: "prv e0 = None" "nxt e0 = p"
    and u: "\<And>e. prv (u e) = Some n \<and> nxt (u e) = nxt e"
  shows "linked prv nxt
           (\<lambda>x. if x = n then Some e0
                else if p = Some x then map_option u (h x)
                else h x)
           (Some n) (n # xs)"
proof -
  from L have d: "distinct xs" and p: "p = head_ptr xs" by (simp_all add: linked_def)
  have nx: "n \<notin> set xs" using linkedD [OF L] n by fastforce
  show ?thesis
    unfolding linked_def
  proof (intro conjI ballI)
    show "distinct (n # xs)" using d nx by simp
    show "Some n = head_ptr (n # xs)" by simp
    fix a assume a: "a \<in> set (n # xs)"
    show "\<exists>e. (if a = n then Some e0
                else if p = Some a then map_option u (h a)
                else h a) = Some e \<and> prv e = pred_of (n # xs) a \<and> nxt e = succ_of (n # xs) a"
    proof (cases "a = n")
      case True
      then show ?thesis using e0 p nx by (auto simp add: pred_of_notin dest: head_ptr_in)
    next
      case False
      with a have ax: "a \<in> set xs" by simp
      from linkedD [OF L ax] obtain e where "h a = Some e" "prv e = pred_of xs a"
        "nxt e = succ_of xs a" by blast
      then show ?thesis using False p d u by (auto simp add: pred_of_head)
    qed
  qed
qed

lemma linked_truncate:
  assumes L: "linked prv nxt h p xs" and t: "t \<in> set xs" and hd: "p \<noteq> Some t"
    and y: "pred_of xs t = Some y"
    and u: "\<And>e. prv (u e) = prv e \<and> nxt (u e) = None"
  shows "linked prv nxt
           (\<lambda>x. if x = t then None else if x = y then map_option u (h x) else h x)
           p (takeWhile (\<lambda>x. x \<noteq> t) xs)"
proof -
  from L have d: "distinct xs" and p: "p = head_ptr xs" by (simp_all add: linked_def)
  let ?tw = "takeWhile (\<lambda>x. x \<noteq> t) xs"
  have sy: "succ_of xs y = Some t" using d y succ_pred by simp
  have hdtw: "p = head_ptr ?tw"
    using p hd by (cases xs) auto
  have "\<exists>e. (if a = t then None else if a = y then map_option u (h a) else h a) = Some e
          \<and> prv e = pred_of ?tw a \<and> nxt e = succ_of ?tw a" if a: "a \<in> set ?tw" for a
  proof -
    from a have ax: "a \<in> set xs" and at: "a \<noteq> t" by (auto dest: set_takeWhileD)
    from linkedD [OF L ax] obtain e where e: "h a = Some e" "prv e = pred_of xs a"
      "nxt e = succ_of xs a" by blast
    have "succ_of xs a = Some t \<longleftrightarrow> a = y" using d y succ_pred by auto
    then show ?thesis using e at u sy
      by (auto simp add: pred_of_takeWhile [OF d a] succ_of_takeWhile [OF d a])
  qed
  then show ?thesis using d hdtw by (simp add: linked_def)
qed

subsection \<open>Evicting the tail program\<close>

lemma shrinks_refl [simp]: "shrinks C C"
  by (auto simp add: shrinks_def)

lemma shrinks_trans: "shrinks C C1 \<Longrightarrow> shrinks C1 C2 \<Longrightarrow> shrinks C C2"
  unfolding shrinks_def by (meson order_trans)

lemma shrinks_dec: "shrinks C (dec C a)"
  by (auto simp add: shrinks_def dec_apply split: option.splits if_splits)

lemma shrinks_inc: "shrinks C (inc C a)"
  by (auto simp add: shrinks_def inc_apply split: option.splits if_splits)

lemma shrinks_dom: "shrinks C C' \<Longrightarrow> C' x \<noteq> None \<Longrightarrow> C x \<noteq> None"
  by (fastforce simp add: shrinks_def)

lemma filter_shrinks:
  assumes "shrinks C C'"
  shows "filter (\<lambda>x. C' x \<noteq> None) (filter (\<lambda>x. C x \<noteq> None) xs) = filter (\<lambda>x. C' x \<noteq> None) xs"
  using shrinks_dom [OF assms] by (auto intro: filter_cong)

lemma pairs_upd_links:
  "pairs (h(a \<mapsto> e\<lparr>pr_next := n\<rparr>)) = (pairs h)(a \<mapsto> (vertex_shader e, fragment_shader e))"
  "pairs (h(a \<mapsto> e\<lparr>pr_prev := p\<rparr>)) = (pairs h)(a \<mapsto> (vertex_shader e, fragment_shader e))"
  "pairs (h(a := None)) = (pairs h)(a := None)"
  "pairs (h(a \<mapsto> e)) = (pairs h)(a \<mapsto> (vertex_shader e, fragment_shader e))"
  by (rule ext, simp add: pairs_def)+

lemma pairs_Some: "h a = Some e \<Longrightarrow> pairs h a = Some (vertex_shader e, fragment_shader e)"
  by (simp add: pairs_def)

lemma evict_tail_effect:
  assumes I: "shader_inv s xs" and L: "prog_list s qs"
    and tl: "program_cache_tail s = Some t" and tin: "t \<in> set qs"
    and hd: "program_cache_head s \<noteq> Some t"
    and r: "evict_tail s = Some s'"
  shows "\<exists>v f y. pairs (programs s) t = Some (v, f)
           \<and> cores (shaders s') = dec (dec (cores (shaders s)) v) f
           \<and> shader_inv s' (filter (\<lambda>x. shaders s' x \<noteq> None) xs)
           \<and> prog_list s' (takeWhile (\<lambda>x. x \<noteq> t) qs)
           \<and> pairs (programs s') = (pairs (programs s))(t := None)
           \<and> program_cache_tail s' = Some y \<and> y \<in> set (takeWhile (\<lambda>x. x \<noteq> t) qs)
           \<and> current_program s' = current_program s
           \<and> shader_formats s' = shader_formats s"
proof -
  from L have Lq: "linked pr_prev pr_next (programs s) (program_cache_head s) qs"
    by (simp add: prog_list_def)
  then have d: "distinct qs" and hq: "program_cache_head s = head_ptr qs"
    by (simp_all add: linked_def)
  from linkedD [OF Lq tin] obtain te where te: "programs s t = Some te"
    "pr_prev te = pred_of qs t" by blast
  from pred_in_takeWhile [OF d tin] hd hq obtain y where
    y: "pred_of qs t = Some y" "y \<in> set (takeWhile (\<lambda>x. x \<noteq> t) qs)" by auto
  from y(2) have yq: "y \<in> set qs" and yt: "y \<noteq> t" by (auto dest: set_takeWhileD)
  from linkedD [OF Lq yq] obtain ye where ye: "programs s y = Some ye"
    "pr_next ye = succ_of qs y" by blast
  have sy: "succ_of qs y = Some t" using d y(1) succ_pred by simp
  from r tl te obtain s1 where s1: "unref_shader s (vertex_shader te) = Some s1"
    by (auto simp add: evict_tail_def split: Option.bind_splits)
  from unref_shader_effect [OF I s1]
  have f1: "frame_sh s s1" and c1: "cores (shaders s1) = dec (cores (shaders s)) (vertex_shader te)"
    and I1: "shader_inv s1 (filter (\<lambda>x. shaders s1 x \<noteq> None) xs)" by auto
  note p1 = frame_shD [OF f1]
  from r tl te s1 p1 obtain s2 where s2: "unref_shader s1 (fragment_shader te) = Some s2"
    by (auto simp add: evict_tail_def split: Option.bind_splits)
  from unref_shader_effect [OF I1 s2]
  have f2: "frame_sh s1 s2" and c2: "cores (shaders s2) = dec (cores (shaders s1)) (fragment_shader te)"
    and I2: "shader_inv s2 (filter (\<lambda>x. shaders s2 x \<noteq> None) (filter (\<lambda>x. shaders s1 x \<noteq> None) xs))"
    by auto
  note p2 = frame_shD [OF f2]
  have "shrinks (cores (shaders s1)) (cores (shaders s2))" unfolding c2 by (rule shrinks_dec)
  from filter_shrinks [OF this, of xs]
  have fl: "filter (\<lambda>x. shaders s2 x \<noteq> None) (filter (\<lambda>x. shaders s1 x \<noteq> None) xs)
            = filter (\<lambda>x. shaders s2 x \<noteq> None) xs" by simp
  define H where "H = (\<lambda>x. if x = t then None
                           else if x = y then map_option (\<lambda>e. e\<lparr>pr_next := None\<rparr>) (programs s x)
                           else programs s x)"
  have Heq: "H = (programs s)(t := None, y \<mapsto> ye\<lparr>pr_next := None\<rparr>)"
    using yt by (intro ext) (auto simp add: H_def ye)
  from r tl te s1 s2 p1 p2 ye sy y(1) yt
  have s': "s' = (gl s2 [GlDeleteProgram (pr_id te)])
                   \<lparr>programs := H, program_cache_tail := Some y,
                    program_cache_count := program_cache_count s - 1\<rparr>"
    by (simp add: evict_tail_def upd_def gl_def Heq)
  have LH: "linked pr_prev pr_next H (program_cache_head s) (takeWhile (\<lambda>x. x \<noteq> t) qs)"
    unfolding H_def by (rule linked_truncate [OF Lq tin hd y(1)]) simp
  have pH: "pairs H = (pairs (programs s))(t := None)"
    unfolding Heq using pairs_Some [of "programs s" y ye, OF ye(1)] yt
    by (auto simp add: pairs_upd_links)
  from s' have sh': "shaders s' = shaders s2" by (simp add: gl_def)
  have I': "shader_inv s' (filter (\<lambda>x. shaders s' x \<noteq> None) xs)"
    using I2 unfolding fl by (simp add: s' shader_inv_def gl_def)
  show ?thesis
    using pairs_Some [of "programs s" t te, OF te(1)] c1 c2 I' LH pH y(2) p1 p2
    by (auto simp add: s' prog_list_def gl_def)
qed

subsection \<open>Creating a program\<close>

lemma frame_gl_gl [simp]: "frame_gl s (gl s cs)" "frame_gl s s" "frame_gl s (gl (gl s cs) ds)"
  by (simp_all add: frame_gl_def gl_def)

lemma cores_refs_upd:
  "h a = Some e \<Longrightarrow>
   cores (h(a \<mapsto> e\<lparr>references := references e + 1\<rparr>)) = inc (cores h) a"
  by (rule ext) (simp add: cores_def inc_def sh_core_def)

lemma create_program_effect:
  assumes I: "shader_inv s xs" and L: "prog_list s ps" and T: "tail_ok s ps" and A: "abs_ok s"
    and r: "create_program s v f b env = Some (r, s')"
  shows "case r of
           Inl err \<Rightarrow> frame_gl s s'
         | Inr n \<Rightarrow>
             programs s n = None
             \<and> (\<exists>ps'. prog_list s' ps' \<and> tail_ok s' ps')
             \<and> shader_inv s' (filter (\<lambda>x. shaders s' x \<noteq> None) xs)
             \<and> abs_ok s'
             \<and> shrinks (cores (shaders s)) (cores (shaders s'))
             \<and> pairs (programs s') n = Some (v, f)
             \<and> current_program s' = current_program s
             \<and> shader_formats s' = shader_formats s"
proof (cases "pe_alloc env")
  case None
  with r show ?thesis by (auto simp add: create_program_def)
next
  case (Some n)
  note al = Some
  from r al have fresh: "programs s n = None"
    by (auto simp add: create_program_def split: if_splits)
  from r al fresh obtain ve fe where ve: "shaders s v = Some ve" and fe: "shaders s f = Some fe"
    by (auto simp add: create_program_def split: Option.bind_splits)
  show ?thesis
  proof (cases "pe_glerror env \<or> \<not> pe_linked env")
    case True
    with r al fresh ve fe show ?thesis
      by (auto simp add: create_program_def Let_def)
  next
    case False
    from L have Lp: "linked pr_prev pr_next (programs s) (program_cache_head s) ps"
      by (simp add: prog_list_def)
    then have d: "distinct ps" and hp: "program_cache_head s = head_ptr ps"
      by (simp_all add: linked_def)
    have nps: "n \<notin> set ps" using linkedD [OF Lp] fresh by fastforce
    define e0 where "e0 = \<lparr>pr_id = pe_id env, blend_mode = b,
                            vertex_shader = v, fragment_shader = f,
                            uniform_locations = take 5 (pe_locs env) @ replicate (16 - length (take 5 (pe_locs env))) 0,
                            pr_prev = None, pr_next = program_cache_head s\<rparr>"
    define H where "H = (\<lambda>x. if x = n then Some e0
                else if program_cache_head s = Some x
                     then map_option (\<lambda>e. e\<lparr>pr_prev := Some n\<rparr>) (programs s x)
                else programs s x)"
    have LH: "linked pr_prev pr_next H (Some n) (n # ps)"
      unfolding H_def by (rule linked_insert [OF Lp fresh]) (simp_all add: e0_def)
    have pH: "pairs H = (pairs (programs s))(n \<mapsto> (v, f))"
      by (rule ext) (auto simp add: pairs_def H_def e0_def option.map_comp comp_def)
    have h1: "(case program_cache_head s of
                 None \<Rightarrow> Some ((programs s)(n \<mapsto> e0))
               | Some headp \<Rightarrow> upd ((programs s)(n \<mapsto> e0)) headp (\<lambda>x. x\<lparr>pr_prev := Some n\<rparr>)) = Some H"
    proof (cases "program_cache_head s")
      case None
      then have "H = (programs s)(n \<mapsto> e0)" by (intro ext) (simp add: H_def)
      with None show ?thesis by simp
    next
      case (Some hq)
      with hp have "hq \<in> set ps" by (simp add: head_ptr_in)
      from linkedD [OF Lp this] obtain he where he: "programs s hq = Some he" by blast
      with fresh have "hq \<noteq> n" by auto
      then have "H = (programs s)(n \<mapsto> e0, hq \<mapsto> he\<lparr>pr_prev := Some n\<rparr>)"
        by (intro ext) (auto simp add: H_def Some he)
      with Some he \<open>hq \<noteq> n\<close> show ?thesis by (simp add: upd_def)
    qed
    define sh1 where "sh1 = (shaders s)(v \<mapsto> ve\<lparr>references := references ve + 1\<rparr>)"
    obtain fe1 where fe1: "sh1 f = Some fe1" using fe by (cases "f = v") (auto simp add: sh1_def)
    define sh2 where "sh2 = sh1(f \<mapsto> fe1\<lparr>references := references fe1 + 1\<rparr>)"
    have c2: "cores sh2 = inc (inc (cores (shaders s)) v) f"
      using cores_refs_upd [of "shaders s" v ve, OF ve] cores_refs_upd [of sh1 f fe1, OF fe1]
      by (simp add: sh2_def sh1_def)
    define s4 where "s4 = (gl (gl s [GlGetError, GlCreateProgram (pe_id env),
                             GlAttachShader (pe_id env) (sh_id ve),
                             GlAttachShader (pe_id env) (sh_id fe),
                             GlBindAttribLocation (pe_id env) 0 ''a_position'',
                             GlBindAttribLocation (pe_id env) 1 ''a_texCoord'',
                             GlLinkProgram (pe_id env), GlGetProgramiv (pe_id env), GlGetError])
                       (map (GlGetUniformLocation (pe_id env)) uniform_names))
                     \<lparr>programs := H,
                      program_cache_tail :=
                        (if program_cache_head s = None then Some n else program_cache_tail s),
                      program_cache_head := Some n,
                      program_cache_count := program_cache_count s + 1,
                      shaders := sh2\<rparr>"
    have step: "(if program_cache_count s4 > GLES2_MAX_CACHED_PROGRAMS
                 then evict_tail s4 else Some s4) = Some s' \<and> r = Inr n"
      using r al fresh ve fe False h1 fe1
      by (auto simp add: create_program_def Let_def e0_def upd_def
          sh1_def [symmetric] sh2_def [symmetric] s4_def gl_def
          split: Option.bind_splits if_splits option.splits)
    have L4: "prog_list s4 (n # ps)" using LH by (simp add: prog_list_def s4_def gl_def)
    have links: "\<And>x. map_option (\<lambda>e. (sh_prev e, sh_next e)) (sh2 x)
                  = map_option (\<lambda>e. (sh_prev e, sh_next e)) (shaders s x)"
    proof -
      fix x
      have "fe1 = (if f = v then ve\<lparr>references := references ve + 1\<rparr> else fe)"
        using fe1 fe by (auto simp add: sh1_def split: if_splits)
      then show "map_option (\<lambda>e. (sh_prev e, sh_next e)) (sh2 x)
                  = map_option (\<lambda>e. (sh_prev e, sh_next e)) (shaders s x)"
        using ve fe by (auto simp add: sh2_def sh1_def)
    qed
    have dom2: "dom sh2 = dom (shaders s)"
      using ve fe by (auto simp add: sh2_def sh1_def)
    have I4: "shader_inv s4 xs"
      using I linked_cong [of xs sh_prev sh_next sh2 "shaders s", OF links] dom2
      by (simp add: shader_inv_def s4_def gl_def)
    have pn: "pairs (programs s) n = None" using fresh by (simp add: pairs_def)
    have A4: "abs_ok s4"
      using refs_insert_program [of "cores (shaders s)" "pairs (programs s)" n v f] A pn ve fe
      by (simp add: abs_ok_def s4_def gl_def c2 pH)
    have T4: "tail_ok s4 (n # ps)"
      using T hp by (auto simp add: tail_ok_def s4_def gl_def head_ptr_None)
    have sh4: "shrinks (cores (shaders s)) (cores (shaders s4))"
      using shrinks_trans [OF shrinks_inc shrinks_inc] by (simp add: s4_def gl_def c2)
    have fl4: "filter (\<lambda>x. shaders s4 x \<noteq> None) xs = xs"
      using I4 by (auto simp add: shader_inv_def filter_id_conv)
    have static4: "current_program s4 = current_program s" "shader_formats s4 = shader_formats s"
      "pairs (programs s4) = (pairs (programs s))(n \<mapsto> (v, f))"
      "shaders s4 = sh2" "program_cache_count s4 = program_cache_count s + 1"
      "program_cache_head s4 = Some n"
      by (simp_all add: s4_def gl_def pH)
    show ?thesis
    proof (cases "program_cache_count s4 > GLES2_MAX_CACHED_PROGRAMS")
      case False
      with step have "s' = s4" "r = Inr n" by simp_all
      with fresh L4 T4 I4 A4 sh4 fl4 static4 show ?thesis by auto
    next
      case True
      with step have ev: "evict_tail s4 = Some s'" and rn: "r = Inr n" by simp_all
      from True static4 T have "ps \<noteq> []"
        by (auto simp add: tail_ok_def GLES2_MAX_CACHED_PROGRAMS_def)
      with T obtain t where t: "program_cache_tail s = Some t" "t \<in> set ps"
        by (auto simp add: tail_ok_def)
      from \<open>ps \<noteq> []\<close> hp have "program_cache_head s \<noteq> None" by (simp add: head_ptr_None)
      with t have t4: "program_cache_tail s4 = Some t" by (auto simp add: s4_def gl_def)
      from t nps have tn: "t \<noteq> n" by auto
      then have hd4: "program_cache_head s4 \<noteq> Some t" using static4 by simp
      from t have tin: "t \<in> set (n # ps)" by simp
      from evict_tail_effect [OF I4 L4 t4 tin hd4 ev] obtain vt ft y where
        e: "pairs (programs s4) t = Some (vt, ft)"
           "cores (shaders s') = dec (dec (cores (shaders s4)) vt) ft"
           "shader_inv s' (filter (\<lambda>x. shaders s' x \<noteq> None) xs)"
           "prog_list s' (takeWhile (\<lambda>x. x \<noteq> t) (n # ps))"
           "pairs (programs s') = (pairs (programs s4))(t := None)"
           "program_cache_tail s' = Some y" "y \<in> set (takeWhile (\<lambda>x. x \<noteq> t) (n # ps))"
           "current_program s' = current_program s4"
           "shader_formats s' = shader_formats s4" by blast
      have A': "abs_ok s'"
        using refs_delete_program [of "cores (shaders s4)" "pairs (programs s4)" t vt ft] e(1) A4
        by (simp add: abs_ok_def e(2) e(5))
      have T': "tail_ok s' (takeWhile (\<lambda>x. x \<noteq> t) (n # ps))"
        using e(6,7) tn by (auto simp add: tail_ok_def)
      have sh': "shrinks (cores (shaders s)) (cores (shaders s'))"
        unfolding e(2) by (rule shrinks_trans [OF sh4 shrinks_trans [OF shrinks_dec shrinks_dec]])
      have "pairs (programs s') n = Some (v, f)" using tn by (simp add: e(5) static4)
      with rn fresh e(3,4,8,9) A' T' sh' static4 show ?thesis by auto
    qed
  qed
qed

subsection \<open>Acquiring a program\<close>

lemma find_program_found:
  assumes f: "find_program h key p = Some (Some a)"
  shows "pairs h a = Some key"
proof -
  have "Some a = Some a \<longrightarrow> pairs h a = Some key"
  proof (rule find_program.raw_induct
      [where P = "\<lambda>h' k p r. r = Some a \<longrightarrow> pairs h' a = Some k", OF _ f])
    fix fp :: "(addr \<rightharpoonup> GLES2_ProgramCacheEntry) \<Rightarrow> addr \<times> addr \<Rightarrow> addr option \<Rightarrow> addr option option"
      and h' :: "addr \<rightharpoonup> GLES2_ProgramCacheEntry" and key' :: "addr \<times> addr"
      and entry :: "addr option" and y :: "addr option"
    assume IH: "\<And>g k p z. fp g k p = Some z \<Longrightarrow> z = Some a \<longrightarrow> pairs g a = Some k"
      and step: "(case entry of None \<Rightarrow> Some None
          | Some a \<Rightarrow>
              (case h' a of None \<Rightarrow> None
               | Some e \<Rightarrow>
                   if vertex_shader e = fst key' \<and> fragment_shader e = snd key' then Some (Some a)
                   else fp h' key' (pr_next e))) = Some y"
    show "y = Some a \<longrightarrow> pairs h' a = Some key'"
      using step IH by (cases key') (auto simp add: pairs_def split: option.splits if_splits)
  qed
  then show ?thesis by simp
qed

lemma pairs_upd:
  assumes "upd h x g = Some h'"
    and "\<And>e. vertex_shader (g e) = vertex_shader e \<and> fragment_shader (g e) = fragment_shader e"
  shows "pairs h' = pairs h"
  using assms by (auto simp add: upd_eq_Some pairs_def intro!: ext)

lemma promote_head:
  assumes hd: "program_cache_head s = Some a" and r: "promote s a = Some s'"
  shows "self_loop s' \<and> pairs (programs s') = pairs (programs s) \<and> s' = s\<lparr>programs := programs s'\<rparr>"
proof -
  from r hd obtain e h1 e1 h2 h3 h4 h5 where
    e: "programs s a = Some e"
    and h1: "(case pr_next e of None \<Rightarrow> Some (programs s)
              | Some n \<Rightarrow> upd (programs s) n (\<lambda>x. x\<lparr>pr_prev := pr_prev e\<rparr>)) = Some h1"
    and e1: "h1 a = Some e1"
    and h2: "(case pr_prev e1 of None \<Rightarrow> Some h1
              | Some p \<Rightarrow> upd h1 p (\<lambda>x. x\<lparr>pr_next := pr_next e1\<rparr>)) = Some h2"
    and h3: "upd h2 a (\<lambda>x. x\<lparr>pr_prev := None\<rparr>) = Some h3"
    and h4: "upd h3 a (\<lambda>x. x\<lparr>pr_next := Some a\<rparr>) = Some h4"
    and h5: "upd h4 a (\<lambda>x. x\<lparr>pr_prev := Some a\<rparr>) = Some h5"
    and s': "s' = s\<lparr>programs := h5, program_cache_head := Some a\<rparr>"
    by (auto simp add: promote_def split: Option.bind_splits)
  have p1: "pairs h1 = pairs (programs s)"
    using h1 by (cases "pr_next e") (auto dest: pairs_upd)
  have p2: "pairs h2 = pairs h1"
    using h2 by (cases "pr_prev e1") (auto dest: pairs_upd)
  have p3: "pairs h3 = pairs h2" using h3 by (auto dest: pairs_upd)
  have p4: "pairs h4 = pairs h3" using h4 by (auto dest: pairs_upd)
  have p5: "pairs h5 = pairs h4" using h5 by (auto dest: pairs_upd)
  from h4 h5 obtain e5 where "h5 a = Some e5" "pr_next e5 = Some a" "pr_prev e5 = Some a"
    by (auto simp add: upd_eq_Some)
  then have "self_loop s'" by (auto simp add: self_loop_def s')
  moreover have "s' = s\<lparr>programs := programs s'\<rparr>" using hd by (simp add: s')
  ultimately show ?thesis using p1 p2 p3 p4 p5 by (simp add: s')
qed

lemma abs_ok_cong:
  "cores (shaders s') = cores (shaders s) \<Longrightarrow> pairs (programs s') = pairs (programs s) \<Longrightarrow>
   abs_ok s' = abs_ok s"
  by (simp add: abs_ok_def)

lemma shader_inv_cong:
  "shaders s' = shaders s \<Longrightarrow> shader_cache_head s' = shader_cache_head s \<Longrightarrow>
   shader_inv s' xs = shader_inv s xs"
  by (simp add: shader_inv_def)

lemma shader_inv_filter_id:
  "shader_inv s xs \<Longrightarrow> filter (\<lambda>x. shaders s x \<noteq> None) xs = xs"
  "shader_inv s xs \<Longrightarrow> filter (\<lambda>x. \<exists>y. shaders s x = Some y) xs = xs"
  by (auto simp add: shader_inv_def filter_id_conv)

lemma CacheProgram_effect:
  assumes I: "shader_inv s xs" and A: "abs_ok s" and P: "prog_shape s"
    and r: "GLES2_CacheProgram s v f b env = Some (r, s')"
  shows "case r of
           Inl err \<Rightarrow> frame_gl s s'
         | Inr p \<Rightarrow>
             prog_shape s'
             \<and> shader_inv s' (filter (\<lambda>x. shaders s' x \<noteq> None) xs)
             \<and> abs_ok s'
             \<and> shrinks (cores (shaders s)) (cores (shaders s'))
             \<and> pairs (programs s') p = Some (v, f)
             \<and> current_program s' = current_program s
             \<and> shader_formats s' = shader_formats s"
proof -
  from r obtain fr where fr: "find_program (programs s) (v, f) (program_cache_head s) = Some fr"
    by (auto simp add: GLES2_CacheProgram_def split: option.splits)
  have hit: ?thesis if a: "fr = Some a" for a
  proof -
    from fr a have pa: "pairs (programs s) a = Some (v, f)" by (simp add: find_program_found)
    show ?thesis
    proof (cases "program_cache_count s > 1")
      case False
      with r fr a have "s' = s" "r = Inr a" by (simp_all add: GLES2_CacheProgram_def)
      with I A P pa show ?thesis by (simp add: shader_inv_filter_id)
    next
      case True
      with r fr a have pr: "promote s a = Some s'" and ra: "r = Inr a"
        by (auto simp add: GLES2_CacheProgram_def split: option.splits)
      have fields: "shaders s' = shaders s \<and> shader_cache_head s' = shader_cache_head s
            \<and> pairs (programs s') = pairs (programs s) \<and> prog_shape s'
            \<and> current_program s' = current_program s \<and> shader_formats s' = shader_formats s"
      proof (cases "program_cache_head s = Some a")
        case True
        from promote_head [OF True pr]
        have sl: "self_loop s'" and pp: "pairs (programs s') = pairs (programs s)"
          and eq: "s' = s\<lparr>programs := programs s'\<rparr>" by simp_all
        have "shaders s' = shaders s" "shader_cache_head s' = shader_cache_head s"
          "current_program s' = current_program s" "shader_formats s' = shader_formats s"
          using arg_cong [OF eq, of shaders] arg_cong [OF eq, of shader_cache_head]
            arg_cong [OF eq, of current_program] arg_cong [OF eq, of shader_formats]
          by simp_all
        with sl pp show ?thesis by (simp add: prog_shape_def)
      next
        case False
        from P consider (AB) ps where "prog_list s ps" "tail_ok s ps" | (C) "self_loop s"
          by (auto simp add: prog_shape_def)
        then show ?thesis
        proof cases
          case AB
          then have L: "prog_list s ps" and T: "tail_ok s ps" by simp_all
          then have Lp: "linked pr_prev pr_next (programs s) (program_cache_head s) ps"
            by (simp add: prog_list_def)
          from find_program_linked [OF Lp, of "(v, f)"] fr a
          have "find (\<lambda>x. pairs (programs s) x = Some (v, f)) ps = Some a" by simp
          then have ain: "a \<in> set ps" by (auto simp add: find_Some_iff)
          then have "ps \<noteq> []" by auto
          with Lp obtain hq where hq: "program_cache_head s = Some hq"
            by (cases ps) (auto simp add: linked_def)
          with False have ne: "a \<noteq> hq" by simp
          from promote_not_head [OF Lp ain hq ne] pr
          have s': "s' = s\<lparr>programs := promoted (programs s) ps a hq, program_cache_head := Some a\<rparr>"
            by simp
          from promoted_linked [OF _ ain ne, of "programs s"] Lp hq
          have "prog_list s' (a # remove1 a ps)" by (simp add: prog_list_def s')
          moreover have "set (a # remove1 a ps) = set ps"
            using ain Lp by (auto simp add: linked_def)
          then have "tail_ok s' (a # remove1 a ps)"
            using T \<open>ps \<noteq> []\<close> unfolding tail_ok_def by (simp add: s')
          ultimately have "prog_shape s'" by (auto simp add: prog_shape_def)
          then show ?thesis by (simp add: s')
        next
          case C
          then obtain c e where c: "program_cache_head s = Some c" "programs s c = Some e"
            "pr_next e = Some c" by (auto simp add: self_loop_def)
          from fr c(1) have "find_program (programs s) (v, f) (Some c) = Some fr" by simp
          from find_program_self_loop [of "programs s" c e "(v, f)" fr, OF c(2,3) this] a have "a = c" by simp
          with False c show ?thesis by simp
        qed
      qed
      then have "shader_inv s' xs" "abs_ok s'" "cores (shaders s') = cores (shaders s)"
        using I A shader_inv_cong [of s' s xs] abs_ok_cong [of s' s] by simp_all
      with fields ra pa I show ?thesis by (simp add: shader_inv_filter_id)
    qed
  qed
  have miss: ?thesis if n: "fr = None"
  proof -
    from r fr n have cr: "create_program s v f b env = Some (r, s')"
      by (simp add: GLES2_CacheProgram_def)
    from P consider (AB) ps where "prog_list s ps" "tail_ok s ps" | (C) "self_loop s"
      by (auto simp add: prog_shape_def)
    then show ?thesis
    proof cases
      case AB
      then have L: "prog_list s ps" and T: "tail_ok s ps" by simp_all
      from create_program_effect [OF I L T A cr] show ?thesis
        by (auto simp add: prog_shape_def split: sum.splits)
    next
      case C
      then obtain c e where c: "program_cache_head s = Some c" "programs s c = Some e"
        "pr_next e = Some c" by (auto simp add: self_loop_def)
      from fr c(1) have "find_program (programs s) (v, f) (Some c) = Some fr" by simp
      from find_program_self_loop [of "programs s" c e "(v, f)" fr, OF c(2,3) this] n show ?thesis by simp
    qed
  qed
  from hit miss show ?thesis by (cases fr) auto
qed

subsection \<open>The failure path of the selection\<close>

lemma zeros_mono: "zeros s Z \<Longrightarrow> Z \<subseteq> Z' \<Longrightarrow> zeros s Z'"
  by (auto simp add: zeros_def)

lemma cores_Some:
  "cores h a = Some (i, t, n, r) \<longleftrightarrow>
     (\<exists>e. h a = Some e \<and> sh_id e = i \<and> sh_type e = t \<and> sh_instance e = n \<and> references e = r)"
  by (auto simp add: cores_def sh_core_def)

lemma zeros_shrinks:
  assumes "zeros s Z" and "shrinks (cores (shaders s)) (cores (shaders s'))"
  shows "zeros s' Z"
  unfolding zeros_def
proof (intro allI impI)
  fix a e assume e: "shaders s' a = Some e" and z: "references e \<le> 0"
  from e have "cores (shaders s') a = Some (sh_id e, sh_type e, sh_instance e, references e)"
    by (simp add: cores_Some)
  with assms(2) z obtain r where "cores (shaders s) a = Some (sh_id e, sh_type e, sh_instance e, r)"
    "r \<le> 0" unfolding shrinks_def by blast
  with assms(1) show "a \<in> Z" by (auto simp add: cores_Some zeros_def)
qed

lemma referenced_positive:
  assumes A: "abs_ok s" and p: "pairs (programs s) p = Some (v, f)"
  shows "\<exists>ve fe. shaders s v = Some ve \<and> 1 \<le> references ve
            \<and> shaders s f = Some fe \<and> 1 \<le> references fe"
proof -
  from A have R: "refs_ok (cores (shaders s)) (pairs (programs s))"
    and V: "live_ok (cores (shaders s)) (pairs (programs s))" by (simp_all add: abs_ok_def)
  from V p obtain ve fe where ve: "shaders s v = Some ve" and fe: "shaders s f = Some fe"
    by (fastforce simp add: live_ok_def)
  from R have fin: "finite (dom (pairs (programs s)))" by (simp add: refs_ok_def)
  from R ve have rv: "references ve = int (refcount (pairs (programs s)) v)"
    unfolding refs_ok_def using cores_Some [of "shaders s" v] by blast
  from R fe have rf: "references fe = int (refcount (pairs (programs s)) f)"
    unfolding refs_ok_def using cores_Some [of "shaders s" f] by blast
  have "refcount (pairs (programs s)) v \<noteq> 0" using refcount_zero [OF fin, of v p f] p by auto
  moreover have "refcount (pairs (programs s)) f \<noteq> 0"
    using refcount_zero [OF fin, of f p _ v] p by auto
  ultimately show ?thesis using ve fe rv rf by auto
qed

lemma evict_if_unreferenced_effect:
  assumes I: "shader_inv s xs" and A: "abs_ok s" and Z: "zeros s Z"
    and r: "evict_if_unreferenced s p = Some s'"
  shows "frame_sh s s' \<and> abs_ok s' \<and> zeros s' (Z - set_option p)
         \<and> shader_inv s' (filter (\<lambda>x. shaders s' x \<noteq> None) xs)
         \<and> shrinks (cores (shaders s)) (cores (shaders s'))"
proof (cases p)
  case None
  with r have "s' = s" by (simp add: evict_if_unreferenced_def)
  with I A Z None show ?thesis by (simp add: shader_inv_filter_id)
next
  case (Some a)
  with r obtain e where e: "shaders s a = Some e"
    by (auto simp add: evict_if_unreferenced_def split: option.splits)
  show ?thesis
  proof (cases "references e \<le> 0")
    case False
    with r Some e have "s' = s" by (simp add: evict_if_unreferenced_def)
    moreover have "zeros s (Z - {a})" using Z e False by (auto simp add: zeros_def)
    ultimately show ?thesis using I A Some by (simp add: shader_inv_filter_id)
  next
    case True
    with r Some e have ev: "GLES2_EvictShader s a = Some s'"
      by (simp add: evict_if_unreferenced_def)
    from I e have ain: "a \<in> set xs" by (auto simp add: shader_inv_def)
    from I have d: "distinct xs" by (simp add: shader_inv_def linked_def)
    from shader_inv_remove [OF I ain] ev
    have fr: "frame_sh s s'" and sh: "shaders s' = unlinked (shaders s) xs a"
      and I': "shader_inv s' (remove1 a xs)" by auto
    have c: "cores (shaders s') = (cores (shaders s))(a := None)"
      by (simp add: sh cores_unlinked)
    have ca: "cores (shaders s) a = Some (sh_id e, sh_type e, sh_instance e, references e)"
      by (simp add: cores_Some e)
    have pe: "programs s' = programs s" using frame_shD [OF fr] by simp
    have A': "abs_ok s'"
      using refs_evict_unreferenced [of "cores (shaders s)" "pairs (programs s)" a "sh_id e" "sh_type e"
          "sh_instance e" "references e"] A ca True
      by (simp add: abs_ok_def c pe)
    have shr: "shrinks (cores (shaders s)) (cores (shaders s'))"
      by (auto simp add: c shrinks_def)
    have Z': "zeros s' (Z - {a})"
      using Z unfolding zeros_def sh by (auto simp add: unlinked_def split: if_splits)
    have "\<And>x. x \<in> set xs \<Longrightarrow> shaders s' x \<noteq> None \<longleftrightarrow> x \<noteq> a"
      using I by (auto simp add: sh unlinked_def shader_inv_def)
    then have "filter (\<lambda>x. shaders s' x \<noteq> None) xs = remove1 a xs"
      unfolding remove1_filter [OF d] by (intro filter_cong) auto
    with fr A' I' shr Z' Some show ?thesis by simp
  qed
qed

lemma fault_effect:
  assumes I: "shader_inv s xs" and A: "abs_ok s" and P: "prog_shape s"
    and Z: "zeros s (set_option vo \<union> set_option fo)"
    and r: "fault s vo fo err = Some (r, s')"
  shows "r = Inl err \<and> cache_inv s' \<and> shader_formats s' = shader_formats s
         \<and> (zeros s {} \<longrightarrow> s' = s\<lparr>current_program := None\<rparr>)"
proof -
  from r obtain s1 s2 where s1: "evict_if_unreferenced s vo = Some s1"
    and s2: "evict_if_unreferenced s1 fo = Some s2"
    and s': "s' = s2\<lparr>current_program := None\<rparr>" and rr: "r = Inl err"
    by (auto simp add: fault_def split: Option.bind_splits)
  from evict_if_unreferenced_effect [OF I A Z s1]
  have f1: "frame_sh s s1" and A1: "abs_ok s1"
    and Z1: "zeros s1 (set_option vo \<union> set_option fo - set_option vo)"
    and I1: "shader_inv s1 (filter (\<lambda>x. shaders s1 x \<noteq> None) xs)" by simp_all
  from evict_if_unreferenced_effect [OF I1 A1 Z1 s2]
  have f2: "frame_sh s1 s2" and A2: "abs_ok s2"
    and Z2: "zeros s2 (set_option vo \<union> set_option fo - set_option vo - set_option fo)"
    and I2: "\<exists>ys. shader_inv s2 ys" by auto
  note q1 = frame_shD [OF f1] and q2 = frame_shD [OF f2]
  have P2: "prog_shape s2"
    using P q1 q2
    by (simp add: prog_shape_def prog_list_def tail_ok_def self_loop_def)
  have Z2': "zeros s2 {}" by (rule zeros_mono [OF Z2]) auto
  have inv: "cache_inv s'"
    using I2 A2 P2 Z2'
    by (auto simp add: cache_inv_def s' shader_inv_def abs_ok_def prog_shape_def prog_list_def
        tail_ok_def self_loop_def cur_ok_def zeros_def)
  have same: "s' = s\<lparr>current_program := None\<rparr>" if "zeros s {}"
  proof -
    have "s1 = s" using s1 that
      by (auto simp add: evict_if_unreferenced_def zeros_def split: option.splits if_splits)
    moreover from this that have "s2 = s" using s2
      by (auto simp add: evict_if_unreferenced_def zeros_def split: option.splits if_splits)
    ultimately show ?thesis by (simp add: s')
  qed
  from rr inv same q1 q2 show ?thesis by (simp add: s')
qed

subsection \<open>Binding the program\<close>

lemma same_caches:
  assumes "shaders s' = shaders s" "shader_cache_head s' = shader_cache_head s"
    "programs s' = programs s" "program_cache_head s' = program_cache_head s"
    "program_cache_tail s' = program_cache_tail s" "program_cache_count s' = program_cache_count s"
  shows "shader_inv s' xs = shader_inv s xs" "abs_ok s' = abs_ok s" "prog_shape s' = prog_shape s"
    "zeros s' Z = zeros s Z"
  using assms
  by (simp_all add: shader_inv_def abs_ok_def prog_shape_def prog_list_def tail_ok_def
      self_loop_def zeros_def)

lemma frame_gl_caches:
  assumes "frame_gl s s'"
  shows "shaders s' = shaders s" "shader_cache_head s' = shader_cache_head s"
    "programs s' = programs s" "program_cache_head s' = program_cache_head s"
    "program_cache_tail s' = program_cache_tail s" "program_cache_count s' = program_cache_count s"
    "shader_formats s' = shader_formats s" "current_program s' = current_program s"
    "shader_cache_count s' = shader_cache_count s"
proof -
  from assms have eq: "s' = s\<lparr>gl_calls := gl_calls s'\<rparr>" by (simp add: frame_gl_def)
  show "shaders s' = shaders s" using arg_cong [OF eq, of shaders] by simp
  show "shader_cache_head s' = shader_cache_head s" using arg_cong [OF eq, of shader_cache_head] by simp
  show "programs s' = programs s" using arg_cong [OF eq, of programs] by simp
  show "program_cache_head s' = program_cache_head s" using arg_cong [OF eq, of program_cache_head] by simp
  show "program_cache_tail s' = program_cache_tail s" using arg_cong [OF eq, of program_cache_tail] by simp
  show "program_cache_count s' = program_cache_count s" using arg_cong [OF eq, of program_cache_count] by simp
  show "shader_formats s' = shader_formats s" using arg_cong [OF eq, of shader_formats] by simp
  show "current_program s' = current_program s" using arg_cong [OF eq, of current_program] by simp
  show "shader_cache_count s' = shader_cache_count s" using arg_cong [OF eq, of shader_cache_count] by simp
qed

lemma find_filter:
  "find P xs = Some a \<Longrightarrow> Q a \<Longrightarrow> (\<And>x. Q x \<Longrightarrow> P' x = P x) \<Longrightarrow> find P' (filter Q xs) = Some a"
  by (induction xs) (auto split: if_splits)

lemma inst_of_shrinks:
  assumes "shrinks C C'" and "C' x \<noteq> None"
  shows "inst_of C' x = inst_of C x"
proof -
  from assms(2) obtain i t n r' where c': "C' x = Some (i, t, n, r')" by (cases "C' x") auto
  with assms(1) obtain r where "C x = Some (i, t, n, r)" unfolding shrinks_def by blast
  with c' show ?thesis by (simp add: inst_of_def)
qed

lemma cached_shrinks:
  assumes S: "shrinks (cores (shaders s)) (cores (shaders s'))"
    and c: "cached s xs i = Some a" and a: "shaders s' a \<noteq> None"
  shows "cached s' (filter (\<lambda>x. shaders s' x \<noteq> None) xs) i = Some a"
  unfolding cached_def
proof (rule find_filter [where P = "\<lambda>x. inst_of (cores (shaders s)) x = Some i"])
  show "find (\<lambda>x. inst_of (cores (shaders s)) x = Some i) xs = Some a"
    using c by (simp add: cached_def)
  show "shaders s' a \<noteq> None" by (rule a)
  fix x assume "shaders s' x \<noteq> None"
  then have "cores (shaders s') x \<noteq> None" by (simp add: cores_def)
  from inst_of_shrinks [OF S this]
  show "(inst_of (cores (shaders s')) x = Some i) = (inst_of (cores (shaders s)) x = Some i)"
    by simp
qed

lemma use_program_effect:
  assumes I: "shader_inv s xs" and A: "abs_ok s" and P: "prog_shape s"
    and Z: "zeros s {v, f}"
    and r: "use_program s v f b env = Some (r, s')"
  shows "cache_inv s' \<and> shader_formats s' = shader_formats s
         \<and> (r = Inr () \<longrightarrow>
              (\<exists>p. current_program s' = Some p \<and> pairs (programs s') p = Some (v, f))
              \<and> shrinks (cores (shaders s)) (cores (shaders s'))
              \<and> shader_inv s' (filter (\<lambda>x. shaders s' x \<noteq> None) xs))"
proof -
  from r obtain rc s1 where cp: "GLES2_CacheProgram s v f b (prog_env env) = Some (rc, s1)"
    by (auto simp add: use_program_def split: option.splits)
  note eff = CacheProgram_effect [OF I A P cp]
  show ?thesis
  proof (cases rc)
    case (Inl err)
    with eff have fg: "frame_gl s s1" by simp
    note q = frame_gl_caches [OF fg]
    note t = same_caches [of s1 s, OF q(1-6)]
    from r cp Inl have fl: "fault s1 (Some v) (Some f) err = Some (r, s')"
      by (simp add: use_program_def)
    have "zeros s1 (set_option (Some v) \<union> set_option (Some f))"
      using Z t(4) [of "{v, f}"] by (simp add: insert_commute)
    from fault_effect [OF _ _ _ this fl] I A P t(1) [of xs] t(2,3) q(7)
    show ?thesis by auto
  next
    case (Inr p)
    with eff have P1: "prog_shape s1"
      and I1: "shader_inv s1 (filter (\<lambda>x. shaders s1 x \<noteq> None) xs)"
      and A1: "abs_ok s1" and S1: "shrinks (cores (shaders s)) (cores (shaders s1))"
      and pp: "pairs (programs s1) p = Some (v, f)"
      and fm: "shader_formats s1 = shader_formats s" by simp_all
    from pp obtain pe where pe: "programs s1 p = Some pe"
      by (auto simp add: pairs_def)
    from referenced_positive [OF A1 pp] obtain ve fe where
      ve: "shaders s1 v = Some ve" "1 \<le> references ve"
      and fe: "shaders s1 f = Some fe" "1 \<le> references fe" by blast
    have Z1: "zeros s1 {}"
      unfolding zeros_def
    proof (intro allI impI)
      fix a e assume e: "shaders s1 a = Some e" and z: "references e \<le> 0"
      with zeros_shrinks [OF Z S1] have "a = v \<or> a = f" by (auto simp add: zeros_def)
      with e z ve fe show "a \<in> {}" by auto
    qed
    define s2 where "s2 = gl s1 [GlGetError, GlUseProgram (pr_id pe), GlGetError]"
    have fg2: "frame_gl s1 s2" by (simp add: s2_def)
    note q2 = frame_gl_caches [OF fg2]
    note t2 = same_caches [of s2 s1, OF q2(1-6)]
    show ?thesis
    proof (cases "use_glerror env")
      case True
      with r cp Inr pe have fl: "fault s2 (Some v) (Some f) ERR_FailedToSelectProgram = Some (r, s')"
        by (simp add: use_program_def s2_def)
      have "zeros s2 (set_option (Some v) \<union> set_option (Some f))"
        using Z1 t2(4) [of "{}"] by (auto intro: zeros_mono)
      from fault_effect [OF _ _ _ this fl] I1 A1 P1 t2(1) t2(2,3) q2(7) fm
      show ?thesis by auto
    next
      case False
      define s2c where "s2c = s2\<lparr>current_program := Some p\<rparr>"
      define s3 where "s3 = gl s2c [GlGetError,
                      GlUniformMatrix4fv (uniform_locations pe ! 0)
                        (concat (projection (fst (window_size s2c)) (snd (window_size s2c)))),
                      GlGetError]"
      have pe2: "programs s2c p = Some pe" by (simp add: s2c_def q2 pe)
      have so: "GLES2_SetOrthographicProjection s2c (proj_glerror env)
                  = Some (if proj_glerror env then Inl ERR_FailedToSetProjection else Inr (), s3)"
        by (simp add: GLES2_SetOrthographicProjection_def s2c_def q2 pe s3_def Let_def)
      have fg3: "frame_gl s2c s3" by (simp add: s3_def)
      note q3 = frame_gl_caches [OF fg3]
      have c3: "shaders s3 = shaders s1" "shader_cache_head s3 = shader_cache_head s1"
        "programs s3 = programs s1" "program_cache_head s3 = program_cache_head s1"
        "program_cache_tail s3 = program_cache_tail s1" "program_cache_count s3 = program_cache_count s1"
        "shader_formats s3 = shader_formats s1" "current_program s3 = Some p"
        by (simp_all add: q3 s2c_def q2)
      note t3 = same_caches [of s3 s1, OF c3(1-6)]
      show ?thesis
      proof (cases "proj_glerror env")
        case True
        with r cp Inr pe False so
        have fl: "fault s3 (Some v) (Some f) ERR_FailedToSetProjection = Some (r, s')"
          by (simp add: use_program_def s2_def s2c_def)
        have "zeros s3 (set_option (Some v) \<union> set_option (Some f))"
          using Z1 t3(4) [of "{}"] by (auto intro: zeros_mono)
        from fault_effect [OF _ _ _ this fl] I1 A1 P1 t3(1) t3(2,3) c3(7) fm
        show ?thesis by auto
      next
        case pf: False
        with r cp Inr pe False so have rr: "r = Inr ()" "s' = s3"
          by (simp_all add: use_program_def s2_def s2c_def)
        have "cache_inv s3"
          using I1 A1 P1 Z1 t3(1) t3(2,3) t3(4) [of "{}"] c3(8) c3(3) pe
          by (auto simp add: cache_inv_def cur_ok_def)
        with rr I1 S1 pp fm c3 t3(1) show ?thesis by simp
      qed
    qed
  qed
qed

subsection \<open>Selecting a program\<close>

lemma resolve_cong: "shader_formats s' = shader_formats s \<Longrightarrow> resolve G s' t b = resolve G s t b"
  by (simp add: resolve_def split: option.splits)

lemma CacheShader_hit:
  assumes I: "shader_inv s xs" and rs: "resolve G s t b = Some inst"
    and c: "cached s xs (inst_ptr inst) = Some a"
  shows "GLES2_CacheShader G s t b env = Some (Inr a, s)"
proof -
  from rs obtain sh where g: "G t b = Some sh"
    and il: "instance_loop (instances sh) (shader_formats s) None = Some inst"
    by (auto simp add: resolve_def split: option.splits)
  from shader_inv_find [OF I, of "inst_ptr inst"] c
  have "find_shader (shaders s) (inst_ptr inst) (shader_cache_head s) = Some (Some a)" by simp
  with g il show ?thesis by (simp add: GLES2_CacheShader_def)
qed

lemma selected_noop:
  assumes "selected G s source b"
  shows "GLES2_SelectProgram G s source b env = Some (Inr (), s)"
proof -
  from assms obtain xs iv jf v f p where I: "shader_inv s xs"
    and rv: "resolve G s GLES2_SHADER_VERTEX_DEFAULT b = Some iv"
    and cv: "cached s xs (inst_ptr iv) = Some v"
    and rf: "resolve G s (fragment_type source) b = Some jf"
    and cf: "cached s xs (inst_ptr jf) = Some f"
    and cp: "current_program s = Some p" and pp: "pairs (programs s) p = Some (v, f)"
    unfolding selected_def by blast
  from pp have "current_matches s v f = Some True"
    by (auto simp add: current_matches_def cp pairs_def)
  with CacheShader_hit [OF I rv cv] CacheShader_hit [OF I rf cf]
  show ?thesis by (simp add: GLES2_SelectProgram_def)
qed

lemma CacheShader_step:
  assumes I: "shader_inv s xs" and A: "abs_ok s" and P: "prog_shape s" and Z: "zeros s Z"
    and r: "GLES2_CacheShader G s t b env = Some (Inr a, s1)"
  shows "\<exists>xs1 inst. resolve G s t b = Some inst \<and> shader_inv s1 xs1 \<and> abs_ok s1 \<and> prog_shape s1
           \<and> zeros s1 (insert a Z) \<and> cached s1 xs1 (inst_ptr inst) = Some a \<and> frame_sh s s1
           \<and> (\<forall>i a'. cached s xs i = Some a' \<longrightarrow> cached s1 xs1 i = Some a')
           \<and> (s1 = s \<and> xs1 = xs \<or>
               shaders s a = None \<and> xs1 = a # xs
               \<and> cores (shaders s1) = (cores (shaders s))(a \<mapsto> (se_id env, t, inst_ptr inst, 0))
               \<and> shader_cache_count s1 = shader_cache_count s + 1)"
proof -
  from CacheShader_effect [OF I r] obtain inst where fr: "frame_sh s s1"
    and rs: "resolve G s t b = Some inst"
    and alt: "(s1 = s \<and> cached s xs (inst_ptr inst) = Some a) \<or>
              (cached s xs (inst_ptr inst) = None \<and> shaders s a = None \<and> shader_inv s1 (a # xs)
               \<and> cores (shaders s1) = (cores (shaders s))(a \<mapsto> (se_id env, t, inst_ptr inst, 0))
               \<and> shader_cache_count s1 = shader_cache_count s + 1)"
    by auto
  from alt show ?thesis
  proof
    assume h: "s1 = s \<and> cached s xs (inst_ptr inst) = Some a"
    with I A P rs fr zeros_mono [OF Z, of "insert a Z"] show ?thesis by auto
  next
    assume m: "cached s xs (inst_ptr inst) = None \<and> shaders s a = None \<and> shader_inv s1 (a # xs)
               \<and> cores (shaders s1) = (cores (shaders s))(a \<mapsto> (se_id env, t, inst_ptr inst, 0))
               \<and> shader_cache_count s1 = shader_cache_count s + 1"
    then have cn: "cached s xs (inst_ptr inst) = None" and fresh: "shaders s a = None"
      and I1: "shader_inv s1 (a # xs)"
      and c1: "cores (shaders s1) = (cores (shaders s))(a \<mapsto> (se_id env, t, inst_ptr inst, 0))"
      and n1: "shader_cache_count s1 = shader_cache_count s + 1" by simp_all
    note q = frame_shD [OF fr]
    from fresh have ca: "cores (shaders s) a = None" by simp
    have A1: "abs_ok s1"
      using refs_new_shader [of "cores (shaders s)" "pairs (programs s)" a "se_id env" t "inst_ptr inst"] A ca
      by (simp add: abs_ok_def c1 q)
    have P1: "prog_shape s1"
      using P q by (simp add: prog_shape_def prog_list_def tail_ok_def self_loop_def)
    have Z1: "zeros s1 (insert a Z)"
      unfolding zeros_def
    proof (intro allI impI)
      fix x e assume e: "shaders s1 x = Some e" and z: "references e \<le> 0"
      show "x \<in> insert a Z"
      proof (cases "x = a")
        case False
        from e have "cores (shaders s1) x = Some (sh_id e, sh_type e, sh_instance e, references e)"
          by (simp add: cores_Some)
        with False have "cores (shaders s) x = Some (sh_id e, sh_type e, sh_instance e, references e)"
          by (simp add: c1)
        with Z z show ?thesis by (auto simp add: cores_Some zeros_def)
      qed simp
    qed
    have ia: "inst_of (cores (shaders s1)) a = Some (inst_ptr inst)"
      by (simp add: inst_of_def c1)
    have ain: "a \<notin> set xs" using I fresh by (auto simp add: shader_inv_def)
    have same: "inst_of (cores (shaders s1)) x = inst_of (cores (shaders s)) x" if "x \<in> set xs" for x
      using that ain by (auto simp add: inst_of_def c1)
    have fsame: "find (\<lambda>x. inst_of (cores (shaders s1)) x = Some i) xs
                 = find (\<lambda>x. inst_of (cores (shaders s)) x = Some i) xs" for i
      by (rule find_cong) (simp_all add: same)
    have keep: "cached s1 (a # xs) i = Some a'" if "cached s xs i = Some a'" for i a'
    proof -
      from that cn have "i \<noteq> inst_ptr inst" by auto
      with that show ?thesis by (simp add: cached_def ia fsame)
    qed
    have "cached s1 (a # xs) (inst_ptr inst) = Some a" by (simp add: cached_def ia)
    with rs I1 A1 P1 Z1 fr keep fresh c1 n1 show ?thesis by blast
  qed
qed

lemma SelectProgram_effect:
  assumes V: "cache_inv s" and r: "GLES2_SelectProgram G s source b env = Some (r, s')"
  shows "cache_inv s' \<and> shader_formats s' = shader_formats s
         \<and> (case r of Inl err \<Rightarrow> current_program s' = None | Inr u \<Rightarrow> selected G s' source b)"
proof -
  from V obtain xs where I: "shader_inv s xs" and A: "abs_ok s" and P: "prog_shape s"
    and U: "cur_ok s" and Z: "zeros s {}" by (auto simp add: cache_inv_def)
  from r obtain rv s1 where
    c1: "GLES2_CacheShader G s GLES2_SHADER_VERTEX_DEFAULT b (vertex_env env) = Some (rv, s1)"
    by (auto simp add: GLES2_SelectProgram_def split: option.splits)
  note e1 = CacheShader_effect [OF I c1]
  then have fr1: "frame_sh s s1" by simp
  note q1 = frame_shD [OF fr1]
  show ?thesis
  proof (cases rv)
    case (Inl err)
    with e1 have k: "shaders s1 = shaders s" "shader_cache_head s1 = shader_cache_head s" by simp_all
    note t = same_caches [of s1 s, OF k q1(1-4)]
    from r c1 Inl have fl: "fault s1 None None err = Some (r, s')"
      by (simp add: GLES2_SelectProgram_def)
    have "zeros s1 (set_option None \<union> set_option None)" using Z t(4) [of "{}"] by simp
    from fault_effect [OF _ _ _ this fl] I A P t(1) [of xs] t(2,3) q1(6)
    have "r = Inl err" "cache_inv s'" "shader_formats s' = shader_formats s" by auto
    moreover from fl have "current_program s' = None"
      by (auto simp add: fault_def split: Option.bind_splits)
    ultimately show ?thesis by simp
  next
    case (Inr v)
    with c1 have c1': "GLES2_CacheShader G s GLES2_SHADER_VERTEX_DEFAULT b (vertex_env env) = Some (Inr v, s1)"
      by simp
    from CacheShader_step [OF I A P Z c1'] obtain xs1 iv where
      rv: "resolve G s GLES2_SHADER_VERTEX_DEFAULT b = Some iv" and I1: "shader_inv s1 xs1"
      and A1: "abs_ok s1" and P1: "prog_shape s1" and Z1: "zeros s1 {v}"
      and cv: "cached s1 xs1 (inst_ptr iv) = Some v" by blast
    have U1: "cur_ok s1" using U q1 by (simp add: cur_ok_def)
    from r c1' obtain rf s2 where
      c2: "GLES2_CacheShader G s1 (fragment_type source) b (fragment_env env) = Some (rf, s2)"
      by (auto simp add: GLES2_SelectProgram_def split: option.splits)
    note e2 = CacheShader_effect [OF I1 c2]
    then have fr2: "frame_sh s1 s2" by simp
    note q2 = frame_shD [OF fr2]
    show ?thesis
    proof (cases rf)
      case (Inl err)
      with e2 have k: "shaders s2 = shaders s1" "shader_cache_head s2 = shader_cache_head s1"
        by simp_all
      note t = same_caches [of s2 s1, OF k q2(1-4)]
      from r c1' c2 Inl have fl: "fault s2 (Some v) None err = Some (r, s')"
        by (simp add: GLES2_SelectProgram_def)
      have "zeros s2 (set_option (Some v) \<union> set_option None)" using Z1 t(4) [of "{v}"] by simp
      from fault_effect [OF _ _ _ this fl] I1 A1 P1 t(1) [of xs1] t(2,3) q1(6) q2(6)
      have "r = Inl err" "cache_inv s'" "shader_formats s' = shader_formats s" by auto
      moreover from fl have "current_program s' = None"
        by (auto simp add: fault_def split: Option.bind_splits)
      ultimately show ?thesis by simp
    next
      case (Inr f)
      with c2 have c2': "GLES2_CacheShader G s1 (fragment_type source) b (fragment_env env) = Some (Inr f, s2)"
        by simp
      from CacheShader_step [OF I1 A1 P1 Z1 c2'] obtain xs2 jf where
        rf: "resolve G s1 (fragment_type source) b = Some jf" and I2: "shader_inv s2 xs2"
        and A2: "abs_ok s2" and P2: "prog_shape s2" and Z2: "zeros s2 {f, v}"
        and cf: "cached s2 xs2 (inst_ptr jf) = Some f"
        and keep: "\<forall>i a'. cached s1 xs1 i = Some a' \<longrightarrow> cached s2 xs2 i = Some a'" by blast
      from keep cv have cv2: "cached s2 xs2 (inst_ptr iv) = Some v" by blast
      have U2: "cur_ok s2" using U1 q2 by (simp add: cur_ok_def)
      have fm2: "shader_formats s2 = shader_formats s" by (simp add: q1 q2)
      have rv2: "resolve G s2 GLES2_SHADER_VERTEX_DEFAULT b = Some iv"
        using rv resolve_cong [OF fm2] by simp
      have rf2: "resolve G s2 (fragment_type source) b = Some jf"
        using rf resolve_cong [of s2 s1] q2 by simp
      have "\<exists>m. current_matches s2 v f = Some m"
      proof (cases "current_program s2")
        case None
        then have "current_matches s2 v f = Some False" by (simp add: current_matches_def)
        then show ?thesis ..
      next
        case (Some c)
        with U2 obtain ce where "programs s2 c = Some ce" by (auto simp add: cur_ok_def)
        with Some show ?thesis by (simp add: current_matches_def)
      qed
      then obtain m where cm: "current_matches s2 v f = Some m" ..
      show ?thesis
      proof (cases m)
        case True
        with r c1' c2' cm have rr: "r = Inr ()" "s' = s2" by (simp_all add: GLES2_SelectProgram_def)
        from cm True obtain p where p: "current_program s2 = Some p"
          and pp: "pairs (programs s2) p = Some (v, f)"
          by (auto simp add: current_matches_def pairs_def split: option.splits)
        from referenced_positive [OF A2 pp] obtain ve fe where
          ve: "shaders s2 v = Some ve" "1 \<le> references ve"
          and fe: "shaders s2 f = Some fe" "1 \<le> references fe" by blast
        have Z0: "zeros s2 {}"
          unfolding zeros_def
        proof (intro allI impI)
          fix a e assume e: "shaders s2 a = Some e" and z: "references e \<le> 0"
          with Z2 have "a = v \<or> a = f" by (auto simp add: zeros_def)
          with e z ve fe show "a \<in> {}" by auto
        qed
        have "cache_inv s2" using I2 A2 P2 U2 Z0 by (auto simp add: cache_inv_def)
        moreover have "selected G s2 source b"
          unfolding selected_def using I2 rv2 cv2 rf2 cf p pp by blast
        ultimately show ?thesis using rr fm2 by simp
      next
        case False
        with r c1' c2' cm have up: "use_program s2 v f b env = Some (r, s')"
          by (simp add: GLES2_SelectProgram_def)
        have Zvf: "zeros s2 {v, f}" using Z2 by (simp add: insert_commute)
        note ue = use_program_effect [OF I2 A2 P2 Zvf up]
        then have V': "cache_inv s'" and fm': "shader_formats s' = shader_formats s2" by simp_all
        show ?thesis
        proof (cases r)
          case (Inl err)
          from up Inl have "current_program s' = None"
            by (auto simp add: use_program_def fault_def Let_def
                split: option.splits sum.splits if_splits Option.bind_splits)
          with V' fm' fm2 Inl show ?thesis by simp
        next
          case (Inr u)
          with ue obtain p where p: "current_program s' = Some p"
            and pp: "pairs (programs s') p = Some (v, f)"
            and S: "shrinks (cores (shaders s2)) (cores (shaders s'))"
            and I': "shader_inv s' (filter (\<lambda>x. shaders s' x \<noteq> None) xs2)" by auto
          from V' have A': "abs_ok s'" by (simp add: cache_inv_def)
          from referenced_positive [OF A' pp] have lv: "shaders s' v \<noteq> None" "shaders s' f \<noteq> None"
            by auto
          have "selected G s' source b"
            unfolding selected_def
            using I' cached_shrinks [OF S cv2 lv(1)] cached_shrinks [OF S cf lv(2)] p pp
              rv2 rf2 resolve_cong [OF fm', of G] by auto
          with V' fm' fm2 Inr show ?thesis by simp
        qed
      qed
    qed
  qed
qed

subsection \<open>Reachable states\<close>

lemma cache_inv_same:
  assumes V: "cache_inv s"
    and k: "shaders s' = shaders s" "shader_cache_head s' = shader_cache_head s"
      "programs s' = programs s" "program_cache_head s' = program_cache_head s"
      "program_cache_tail s' = program_cache_tail s" "program_cache_count s' = program_cache_count s"
    and c: "current_program s' = current_program s \<or> current_program s' = None"
  shows "cache_inv s'"
proof -
  note t = same_caches [of s' s, OF k]
  from V c k(3) have "cur_ok s'" by (auto simp add: cache_inv_def cur_ok_def)
  with V t(1) t(2,3) t(4) [of "{}"] show ?thesis by (simp add: cache_inv_def)
qed

lemma gl_fields [simp]:
  "shaders (gl s cs) = shaders s" "shader_cache_head (gl s cs) = shader_cache_head s"
  "programs (gl s cs) = programs s" "program_cache_head (gl s cs) = program_cache_head s"
  "program_cache_tail (gl s cs) = program_cache_tail s"
  "program_cache_count (gl s cs) = program_cache_count s"
  "current_program (gl s cs) = current_program s"
  "shader_cache_count (gl s cs) = shader_cache_count s"
  "shader_formats (gl s cs) = shader_formats s"
  by (simp_all add: gl_def)

lemma cache_inv_created:
  assumes "GLES2_CreateRenderer env wsize cur = Some (Inr s)"
  shows "cache_inv s"
proof -
  from assms have f: "shaders s = Map.empty" "programs s = Map.empty" "shader_cache_head s = None"
    "program_cache_head s = None" "program_cache_count s = 0" "current_program s = None"
    by (auto simp add: GLES2_CreateRenderer_def split: if_splits option.splits)
  have "shader_inv s []" by (simp add: shader_inv_def linked_def f)
  moreover have "abs_ok s"
    by (simp add: abs_ok_def refs_ok_def live_ok_def cores_def pairs_def f)
  moreover have "prog_list s [] \<and> tail_ok s []"
    by (simp add: prog_list_def tail_ok_def linked_def f)
  then have "prog_shape s" unfolding prog_shape_def by blast
  moreover have "cur_ok s" "zeros s {}" by (simp_all add: cur_ok_def zeros_def f)
  ultimately show ?thesis unfolding cache_inv_def by blast
qed

lemma cache_inv_activate:
  assumes "cache_inv s"
  shows "cache_inv (snd (GLES2_ActivateRenderer s ok))"
  by (rule cache_inv_same [OF assms]) (simp_all add: GLES2_ActivateRenderer_def Let_def)

lemma UpdateTexture_state:
  assumes "GLES2_UpdateTexture s texture bpp rect pixels pitch uenv = Some (r, s', texture')"
  shows "\<exists>cs. s' = gl (snd (GLES2_ActivateRenderer s (ue_make_current_ok uenv))) cs"
proof -
  have e: "\<And>z. z = gl z []" by (simp add: gl_def)
  from assms show ?thesis
    by (auto simp add: GLES2_UpdateTexture_def Let_def intro: e split: if_splits option.splits)
qed

lemma reachable_cache_inv:
  assumes "reachable G s"
  shows "cache_inv s"
  using assms
proof (induction rule: reachable.induct)
  case (created env wsize cur s)
  then show ?case by (rule cache_inv_created)
next
  case (activated s ok)
  then show ?case by (simp add: cache_inv_activate)
next
  case (window_event s ev)
  from window_event.IH show ?case
    by (rule cache_inv_same) (simp_all add: GLES2_WindowEvent_def)
next
  case (selected_program s source b env r s')
  from SelectProgram_effect [OF selected_program.IH selected_program.hyps(2)]
  show ?case by simp
next
  case (blend_mode s b)
  from blend_mode.IH show ?case
    by (rule cache_inv_same) (simp_all add: GLES2_SetBlendMode_def)
next
  case (updated_texture s texture bpp rect pixels pitch uenv r s' texture')
  from UpdateTexture_state [OF updated_texture.hyps(2)] obtain cs where
    s': "s' = gl (snd (GLES2_ActivateRenderer s (ue_make_current_ok uenv))) cs" ..
  define s0 where "s0 = snd (GLES2_ActivateRenderer s (ue_make_current_ok uenv))"
  have "cache_inv s0" unfolding s0_def by (rule cache_inv_activate [OF updated_texture.IH])
  then have "cache_inv (gl s0 cs)" by (rule cache_inv_same) simp_all
  then show ?case by (simp add: s' s0_def)
next
  case (drawn s cs)
  from drawn.IH show ?case by (rule cache_inv_same) simp_all
next
  case (outside s c w)
  from outside.IH show ?case by (rule cache_inv_same) simp_all
qed

subsection \<open>Shaders without a supported instance\<close>




lemma SelectProgram_vertex_failure:
  assumes "GLES2_CacheShader G s GLES2_SHADER_VERTEX_DEFAULT b (vertex_env env) = Some (Inl err, s1)"
  shows "GLES2_SelectProgram G s source b env = Some (Inl err, s1\<lparr>current_program := None\<rparr>)"
  using assms by (simp add: GLES2_SelectProgram_def fault_def evict_if_unreferenced_def)



text \<open>The definitions that evaluate a selection on a given state.\<close>

lemmas select_simps =
  GLES2_SelectProgram_def use_program_def current_matches_def fault_def evict_if_unreferenced_def
  GLES2_SetOrthographicProjection_def fragment_type_def
  GLES2_CacheShader_def create_shader_def GLES2_CacheProgram_def create_program_def
  GLES2_EvictShader_def upd_def gl_def find_shader.simps find_program.simps
  example_state_def example_select_env_def GLES2_MAX_CACHED_PROGRAMS_def uniform_names_def

text \<open>
  The state \<open>bound_state\<close> is, up to the trace, what the selection for a solid fill
  at blend mode 1 leaves in the renderer just created.
\<close>

lemma bound_state_selected:
  "\<exists>cs. GLES2_SelectProgram nine_fragments example_state GLES2_IMAGESOURCE_SOLID 1 example_select_env
          = Some (Inr (), bound_state\<lparr>gl_calls := cs\<rparr>)"
  by (simp add: select_simps nine_fragments_def bound_state_def fun_eq_iff)

section \<open>Selecting the same program again\<close>

text \<open>
  C5: in a reachable state, if \<^verbatim>\<open>GLES2_SelectProgram\<close> succeeds for an image source
  and a blend mode, then a second call with the same two arguments, whatever the driver
  and the allocator would answer, succeeds and leaves the state as it is: it issues no
  OpenGL call (no \<^verbatim>\<open>glUseProgram\<close>, nothing that creates a shader or a program), and
  the two caches and \<^verbatim>\<open>current_program\<close> are what the first call left.
\<close>

theorem C5_repeated_selection_is_noop:
  assumes "reachable G s"
    and "GLES2_SelectProgram G s source blendMode env = Some (Inr (), s1)"
  shows "GLES2_SelectProgram G s1 source blendMode env' = Some (Inr (), s1)"
proof -
  from assms(1) have "cache_inv s" by (rule reachable_cache_inv)
  from SelectProgram_effect [OF this assms(2)] have "selected G s1 source blendMode" by simp
  then show ?thesis by (rule selected_noop)
qed

text \<open>
  In a renderer just created, the selection for a solid fill at blend mode 1 succeeds and
  binds the program at address 200; the same selection again returns the same state.
\<close>

theorem C5_repeated_selection_witness:
  "\<exists>s1. GLES2_SelectProgram nine_fragments example_state GLES2_IMAGESOURCE_SOLID 1 example_select_env
          = Some (Inr (), s1)
      \<and> current_program s1 = Some 200
      \<and> GLES2_SelectProgram nine_fragments s1 GLES2_IMAGESOURCE_SOLID 1 example_select_env
          = Some (Inr (), s1)"
proof -
  have r: "reachable nine_fragments example_state"
    by (rule reachable.created [OF example_state_created])
  have "\<exists>s1. GLES2_SelectProgram nine_fragments example_state GLES2_IMAGESOURCE_SOLID 1 example_select_env
          = Some (Inr (), s1) \<and> current_program s1 = Some 200"
    by (simp add: select_simps nine_fragments_def)
  then obtain s1 where f: "GLES2_SelectProgram nine_fragments example_state GLES2_IMAGESOURCE_SOLID 1
      example_select_env = Some (Inr (), s1)" and c: "current_program s1 = Some 200" by blast
  from C5_repeated_selection_is_noop [OF r f] f c show ?thesis by blast
qed

section \<open>Shaders that the platform cannot load\<close>




end
